theory Spec2Isabelle
  imports Main
begin

section \<open>The gesture controller of dnd-core.mjs\<close>

text \<open>
  The module keeps its data in module-level variables (\<^verbatim>\<open>state\<close>, \<^verbatim>\<open>current\<close>,
  \<^verbatim>\<open>initial\<close>, \<^verbatim>\<open>defer\<close>, \<^verbatim>\<open>detach\<close>, \<^verbatim>\<open>style\<close>) and talks to the host through
  \<^verbatim>\<open>setTimeout\<close>/\<^verbatim>\<open>clearTimeout\<close>, \<^verbatim>\<open>document.body.style\<close>, the \<^verbatim>\<open>observer\<close> event
  target and the listeners of \<^verbatim>\<open>window\<close>. All of it is gathered in one record, the
  world, which every function of the module takes and returns.
\<close>

subsection \<open>Values\<close>

text \<open>
  Pointer coordinates are integers (pixels). A coordinate read through \<^verbatim>\<open>p?.clientX\<close> is
  \<^verbatim>\<open>undefined\<close> when there is no pointer, and arithmetic on \<^verbatim>\<open>undefined\<close> gives
  \<^verbatim>\<open>NaN\<close>; every comparison with \<^verbatim>\<open>NaN\<close> is false.
\<close>

datatype jsnum = Num int | NaN

fun js_sub :: "int option \<Rightarrow> int option \<Rightarrow> jsnum" where
  "js_sub (Some a) (Some b) = Num (a - b)"
| "js_sub _ _ = NaN"

fun js_add :: "jsnum \<Rightarrow> jsnum \<Rightarrow> jsnum" where
  "js_add (Num a) (Num b) = Num (a + b)"
| "js_add _ _ = NaN"

fun js_less :: "jsnum \<Rightarrow> int \<Rightarrow> bool" where
  "js_less (Num a) d = (a < d)"
| "js_less NaN d = False"

type_synonym point = "int \<times> int"

text \<open>
  An input event is a mouse event with its own coordinates, or a touch event with its
  \<^verbatim>\<open>touches\<close> and \<^verbatim>\<open>changedTouches\<close> lists.
\<close>

datatype event = MouseEvent point | TouchEvent "point list" "point list"

fun is_MouseEvent :: "event \<Rightarrow> bool" where
  "is_MouseEvent (MouseEvent p) = True"
| "is_MouseEvent (TouchEvent ts cs) = False"

datatype error = TypeError | HandlerError string

datatype ntype = Dnd_drag | Dnd_drop

text \<open>
  A notification is the event type together with the content of \<^verbatim>\<open>state\<close> at the moment
  of the dispatch (the source passes the \<^verbatim>\<open>state\<close> object itself as \<^verbatim>\<open>detail\<close>).
\<close>

record 'p notification =
  ntype :: ntype
  detail_props :: "'p option"
  detail_dx :: jsnum
  detail_dy :: jsnum
  detail_canceled :: bool

datatype key = WebkitUserSelect | MozUserSelect | MsUserSelect | UserSelect

type_synonym jsval = "string option"

subsection \<open>The world\<close>

text \<open>
  \<^item> \<open>state_props\<close>, \<open>state_dx\<close>, \<open>state_dy\<close>, \<open>state_canceled\<close>: the exported \<^verbatim>\<open>state\<close>
    (\<open>None\<close> is \<^verbatim>\<open>null\<close> or \<^verbatim>\<open>undefined\<close>, which \<^verbatim>\<open>== null\<close> does not tell apart);
  \<^item> \<open>current\<close>, \<open>initial\<close>: the two coordinate objects, as pairs \<open>(x, y)\<close>;
  \<^item> \<open>defer_id\<close>: the variable \<^verbatim>\<open>defer\<close>, the id of the armed timer or \<^verbatim>\<open>null\<close>;
  \<^item> \<open>detach\<close>, \<open>style\<close>: the module variables of these names;
  \<^item> \<open>body_style\<close>: the storage behind \<^verbatim>\<open>document.body.style\<close>; the property \<open>k\<close> reads and
    writes the slot \<open>alias_of k\<close> (the source notes that these properties are aliases; a
    plain object is \<open>alias_of = id\<close>);
  \<^item> \<open>timers\<close>: the host's pending timers, each with its id, the event its callback closed
    over and the time it is due; \<open>next_timer\<close> is the next fresh id and \<open>now\<close> the clock;
  \<^item> \<open>emitted\<close>: every notification dispatched on \<^verbatim>\<open>observer\<close> so far;
  \<^item> \<open>subscriber\<close>: what the listeners of \<^verbatim>\<open>observer\<close> do with a notification: return, or
    throw;
  \<^item> \<open>reported\<close>: the exceptions of listeners that the host has reported so far;
  \<^item> \<open>prevented\<close>: the number of \<^verbatim>\<open>preventDefault\<close> calls made.
\<close>

record 'p world =
  state_props :: "'p option"
  state_dx :: jsnum
  state_dy :: jsnum
  state_canceled :: bool
  current :: "int option \<times> int option"
  initial :: "int option \<times> int option"
  defer_id :: "nat option"
  detach :: int
  style :: "key \<Rightarrow> jsval"
  body_style :: "key \<Rightarrow> jsval"
  alias_of :: "key \<Rightarrow> key"
  timers :: "(nat \<times> event \<times> int) list"
  next_timer :: nat
  now :: int
  emitted :: "'p notification list"
  subscriber :: "'p notification \<Rightarrow> error option"
  reported :: "error list"
  prevented :: nat

text \<open>The module right after it is loaded.\<close>

definition init_world ::
  "('p notification \<Rightarrow> error option) \<Rightarrow> (key \<Rightarrow> key) \<Rightarrow> (key \<Rightarrow> jsval) \<Rightarrow> 'p world" where
  "init_world sub al body =
     \<lparr> state_props = None, state_dx = Num 0, state_dy = Num 0, state_canceled = False,
       current = (None, None), initial = (None, None), defer_id = None, detach = 2,
       style = (\<lambda>k. Some ''none''), body_style = body, alias_of = al,
       timers = [], next_timer = 1, now = 0, emitted = [], subscriber = sub,
       reported = [], prevented = 0 \<rparr>"

subsection \<open>The host: timers\<close>

text \<open>
  The module runs in a browser (it uses \<^verbatim>\<open>window\<close> and \<^verbatim>\<open>document\<close>), where the delay of
  \<^verbatim>\<open>setTimeout\<close> is a signed 32-bit integer: the number is reduced modulo \<open>2^32\<close> into
  the range from \<open>-2^31\<close> to \<open>2^31 - 1\<close>, and a negative result counts as 0. A delay of
  \<open>2^31\<close> milliseconds is therefore no delay at all.
\<close>

definition to_long :: "int \<Rightarrow> int" where
  "to_long n = (let m = n mod 4294967296 in if 2147483648 \<le> m then m - 4294967296 else m)"

definition timeout_of :: "int \<Rightarrow> int" where
  "timeout_of delay = max 0 (to_long delay)"

text \<open>
  \<^verbatim>\<open>setTimeout\<close> queues the callback under a fresh id, due after the timeout;
  \<^verbatim>\<open>clearTimeout\<close> removes the timer of that id and ignores \<^verbatim>\<open>null\<close>.
\<close>

definition setTimeout :: "event \<Rightarrow> int \<Rightarrow> 'p world \<Rightarrow> nat \<times> 'p world" where
  "setTimeout e delay w =
     (next_timer w,
      w\<lparr> timers := timers w @ [(next_timer w, e, now w + timeout_of delay)],
         next_timer := Suc (next_timer w) \<rparr>)"

definition clearTimeout :: "nat option \<Rightarrow> 'p world \<Rightarrow> 'p world" where
  "clearTimeout i w =
     (case i of
        None \<Rightarrow> w
      | Some n \<Rightarrow> w\<lparr> timers := filter (\<lambda>t. fst t \<noteq> n) (timers w) \<rparr>)"

subsection \<open>Private functions of the module\<close>

fun getPointer :: "event option \<Rightarrow> point option" where
  "getPointer None = None"
| "getPointer (Some (MouseEvent p)) = Some p"
| "getPointer (Some (TouchEvent ts cs)) =
     (case ts of
        t # _ \<Rightarrow> Some t
      | [] \<Rightarrow> (case cs of [] \<Rightarrow> None | c # _ \<Rightarrow> Some c))"

text \<open>\<^verbatim>\<open>fill(s, e)\<close> overwrites both fields of \<^verbatim>\<open>s\<close>; the model returns the new \<^verbatim>\<open>s\<close>.\<close>

definition fill :: "event \<Rightarrow> int option \<times> int option" where
  "fill e =
     (case getPointer (Some e) of
        None \<Rightarrow> (None, None)
      | Some p \<Rightarrow> (Some (fst p), Some (snd p)))"

definition style_keys :: "key list" where
  "style_keys = [WebkitUserSelect, MozUserSelect, MsUserSelect, UserSelect]"

text \<open>
  \<^verbatim>\<open>toggleUserSelect\<close>: the first loop reads the four properties into \<^verbatim>\<open>tmp\<close>, the
  second writes the saved \<^verbatim>\<open>style\<close> into them in key order, then \<^verbatim>\<open>style = tmp\<close>.
\<close>

definition toggleUserSelect :: "'p world \<Rightarrow> 'p world" where
  "toggleUserSelect w =
     (let tmp = (\<lambda>k. body_style w (alias_of w k));
          body = foldl (\<lambda>b k. b(alias_of w k := style w k)) (body_style w) style_keys
      in w\<lparr> body_style := body, style := tmp \<rparr>)"

text \<open>\<^verbatim>\<open>new CustomEvent(type, { detail: state })\<close>, with the content \<^verbatim>\<open>state\<close> has now.\<close>

definition custom_event :: "ntype \<Rightarrow> 'p world \<Rightarrow> 'p notification" where
  "custom_event ty w =
     \<lparr> ntype = ty, detail_props = state_props w, detail_dx = state_dx w,
       detail_dy = state_dy w, detail_canceled = state_canceled w \<rparr>"

text \<open>
  \<^verbatim>\<open>observer\<close> is a built-in \<^verbatim>\<open>EventTarget\<close>. Its \<^verbatim>\<open>dispatchEvent\<close> runs the listeners;
  when a listener throws, the host reports the exception and \<^verbatim>\<open>dispatchEvent\<close> returns
  as usual, so nothing is thrown to the code that dispatched.
\<close>

definition report :: "error option \<Rightarrow> 'p world \<Rightarrow> 'p world" where
  "report r w = (case r of None \<Rightarrow> w | Some err \<Rightarrow> w\<lparr> reported := reported w @ [err] \<rparr>)"

text \<open>\<^verbatim>\<open>dispatch\<close> records the notification in \<open>emitted\<close> and hands it to the listeners.\<close>

definition dispatch :: "ntype \<Rightarrow> 'p world \<Rightarrow> error option \<times> 'p world" where
  "dispatch ty w =
     (let n = custom_event ty w
      in (None, report (subscriber w n) (w\<lparr> emitted := emitted w @ [n] \<rparr>)))"

definition cleanup :: "'p world \<Rightarrow> 'p world" where
  "cleanup w =
     (if state_props w = None then w
      else
        let w1 = toggleUserSelect w;
            w2 = w1\<lparr> state_props := None, state_dx := Num 0, state_dy := Num 0,
                     state_canceled := False \<rparr>;
            w3 = clearTimeout (defer_id w2) w2
        in w3\<lparr> defer_id := None, initial := (None, None), current := (None, None),
                detach := 2 \<rparr>)"

text \<open>\<^verbatim>\<open>try { body } finally { fin }\<close>: \<open>fin\<close> runs in both cases, and an exception of the body goes on.\<close>

definition try_finally ::
  "error option \<times> 'p world \<Rightarrow> ('p world \<Rightarrow> 'p world) \<Rightarrow> error option \<times> 'p world" where
  "try_finally body fin = (fst body, fin (snd body))"

definition cancel :: "'p world \<Rightarrow> error option \<times> 'p world" where
  "cancel w =
     (if state_props w = None then (None, w)
      else try_finally (dispatch Dnd_drop (w\<lparr> state_canceled := True \<rparr>)) cleanup)"

definition move :: "event \<Rightarrow> 'p world \<Rightarrow> error option \<times> 'p world" where
  "move e w =
     (if state_props w = None then (None, w)
      else
        let w1 = (if \<not> is_MouseEvent e then w\<lparr> prevented := Suc (prevented w) \<rparr> else w);
            w2 = w1\<lparr> current := fill e \<rparr>;
            w3 = w2\<lparr> state_dx := js_sub (fst (current w2)) (fst (initial w2)) \<rparr>;
            w4 = w3\<lparr> state_dy := js_sub (snd (current w3)) (snd (initial w3)) \<rparr>
        in if defer_id w4 \<noteq> None then
             if js_less (js_add (state_dx w4) (state_dy w4)) (detach w4) then (None, w4)
             else dispatch Dnd_drag ((clearTimeout (defer_id w4) w4)\<lparr> defer_id := None \<rparr>)
           else dispatch Dnd_drag w4)"

definition start :: "'p option \<Rightarrow> int \<Rightarrow> event \<Rightarrow> 'p world \<Rightarrow> error option \<times> 'p world" where
  "start props delay e w =
     (if state_props w \<noteq> None then cancel w
      else
        let w1 = toggleUserSelect w;
            w2 = w1\<lparr> state_props := props \<rparr>;
            w3 = w2\<lparr> initial := fill e \<rparr>;
            (i, w4) = setTimeout e delay w3
        in (None, w4\<lparr> defer_id := Some i \<rparr>))"

text \<open>The handler \<^verbatim>\<open>drop\<close>, named \<open>drop_h\<close> here because \<open>drop\<close> is a function on lists.\<close>

definition drop_h :: "'p world \<Rightarrow> error option \<times> 'p world" where
  "drop_h w =
     (if state_props w = None then (None, w)
      else try_finally (if defer_id w = None then dispatch Dnd_drop w else (None, w)) cleanup)"

text \<open>The callback that \<^verbatim>\<open>start\<close> passes to \<^verbatim>\<open>setTimeout\<close>.\<close>

definition timer_callback :: "event \<Rightarrow> 'p world \<Rightarrow> error option \<times> 'p world" where
  "timer_callback e w = move e (w\<lparr> defer_id := None \<rparr>)"

text \<open>
  The host runs the callback of a pending timer once, not before it is due; a timer that
  is not pending, or not yet due, does not run.
\<close>

definition fire :: "nat \<Rightarrow> 'p world \<Rightarrow> error option \<times> 'p world" where
  "fire i w =
     (case find (\<lambda>t. fst t = i) (timers w) of
        None \<Rightarrow> (None, w)
      | Some t \<Rightarrow>
          if now w < snd (snd t) then (None, w)
          else timer_callback (fst (snd t))
                 (w\<lparr> timers := filter (\<lambda>t. fst t \<noteq> i) (timers w) \<rparr>))"

definition elapse :: "nat \<Rightarrow> 'p world \<Rightarrow> 'p world" where
  "elapse t w = w\<lparr> now := now w + int t \<rparr>"

subsection \<open>The host: listeners of \<^verbatim>\<open>window\<close>\<close>

text \<open>
  A listener is identified by its event type, its callback and its capture flag:
  \<^verbatim>\<open>addEventListener\<close> adds it unless the same triple is there already, and
  \<^verbatim>\<open>removeEventListener\<close> removes the listener with exactly that triple (the flag is
  \<^verbatim>\<open>false\<close> when the third argument is left out).
\<close>

datatype evtype =
  Mousemove | Mouseup | Touchmove | Touchend | Contextmenu | Touchcancel | Touchstart

datatype handler = Move_handler | Drop_handler | Cancel_handler

type_synonym listener = "evtype \<times> handler \<times> bool"

definition addEventListener ::
  "evtype \<Rightarrow> handler \<Rightarrow> bool \<Rightarrow> listener list \<Rightarrow> listener list" where
  "addEventListener ty h capture ls =
     (if (ty, h, capture) \<in> set ls then ls else ls @ [(ty, h, capture)])"

definition removeEventListener ::
  "evtype \<Rightarrow> handler \<Rightarrow> bool \<Rightarrow> listener list \<Rightarrow> listener list" where
  "removeEventListener ty h capture ls = filter (\<lambda>l. l \<noteq> (ty, h, capture)) ls"

text \<open>The function that \<^verbatim>\<open>init\<close> returns.\<close>

definition init_destructor :: "listener list \<Rightarrow> listener list" where
  "init_destructor ls =
     (let l1 = removeEventListener Mousemove Move_handler True ls;
          l2 = removeEventListener Mouseup Drop_handler False l1;
          l3 = removeEventListener Touchmove Move_handler False l2;
          l4 = removeEventListener Touchend Drop_handler False l3
      in removeEventListener Touchstart Cancel_handler False l4)"

definition init :: "listener list \<Rightarrow> listener list \<times> (listener list \<Rightarrow> listener list)" where
  "init ls =
     (let l1 = addEventListener Mousemove Move_handler True ls;
          l2 = addEventListener Mouseup Drop_handler False l1;
          l3 = addEventListener Touchmove Move_handler False l2;
          l4 = addEventListener Touchend Drop_handler False l3;
          l5 = addEventListener Contextmenu Cancel_handler False l4;
          l6 = addEventListener Touchcancel Cancel_handler False l5;
          l7 = addEventListener Touchstart Cancel_handler True l6
      in (l7, init_destructor))"

text \<open>The callbacks that an event of type \<open>ty\<close> reaching \<^verbatim>\<open>window\<close> runs, in order.\<close>

definition window_handlers :: "evtype \<Rightarrow> listener list \<Rightarrow> handler list" where
  "window_handlers ty ls = map (\<lambda>l. fst (snd l)) (filter (\<lambda>l. fst l = ty) ls)"

fun run_handler :: "handler \<Rightarrow> event \<Rightarrow> 'p world \<Rightarrow> error option \<times> 'p world" where
  "run_handler Move_handler e w = move e w"
| "run_handler Drop_handler e w = drop_h w"
| "run_handler Cancel_handler e w = cancel w"

subsection \<open>Attaching a surface\<close>

record config =
  cfg_delay :: "int option"
  cfg_detach :: "int option"

text \<open>
  \<^verbatim>\<open>draggable\<close> reads \<^verbatim>\<open>config.delay\<close> first, which throws a \<^verbatim>\<open>TypeError\<close> when
  \<^verbatim>\<open>config\<close> is \<^verbatim>\<open>undefined\<close> or \<^verbatim>\<open>null\<close> (\<open>None\<close>). Otherwise it sets \<^verbatim>\<open>detach\<close> and
  registers \<^verbatim>\<open>fn = start.bind(null, props, delay)\<close> for \<^verbatim>\<open>mousedown\<close> and
  \<^verbatim>\<open>touchstart\<close> on the element; the model returns the two bound arguments of \<^verbatim>\<open>fn\<close>.
\<close>

definition draggable ::
  "'p option \<Rightarrow> config option \<Rightarrow> 'p world \<Rightarrow> error + ('p world \<times> ('p option \<times> int))" where
  "draggable props cfg w =
     (case cfg of
        None \<Rightarrow> Inl TypeError
      | Some c \<Rightarrow>
          let delay = (case cfg_delay c of None \<Rightarrow> 50 | Some d \<Rightarrow> d);
              w1 = w\<lparr> detach := (case cfg_detach c of None \<Rightarrow> detach w | Some d \<Rightarrow> d) \<rparr>
          in Inr (w1, (props, delay)))"

subsection \<open>Runs\<close>

text \<open>
  What can happen to the module: the application attaches a surface, the host calls the
  bound \<^verbatim>\<open>start\<close> of a surface or one of the three window handlers, runs a timer
  callback, or lets time pass. An exception that leaves a call goes to the caller, and
  the module keeps the state the call left.
\<close>

datatype 'p call =
  Attach "'p option" "config option"
| Start "'p option" int event
| Move event
| Drop
| Cancel
| Fire nat
| Elapse nat

fun step :: "'p call \<Rightarrow> 'p world \<Rightarrow> 'p world" where
  "step (Attach props cfg) w =
     (case draggable props cfg w of Inl err \<Rightarrow> w | Inr r \<Rightarrow> fst r)"
| "step (Start props delay e) w = snd (start props delay e w)"
| "step (Move e) w = snd (move e w)"
| "step Drop w = snd (drop_h w)"
| "step Cancel w = snd (cancel w)"
| "step (Fire i) w = snd (fire i w)"
| "step (Elapse t) w = elapse t w"

fun run :: "'p call list \<Rightarrow> 'p world \<Rightarrow> 'p world" where
  "run [] w = w"
| "run (c # cs) w = run cs (step c w)"

text \<open>The calls that end no gesture and start none.\<close>

fun nonterminal_call :: "'p call \<Rightarrow> bool" where
  "nonterminal_call (Attach props cfg) = True"
| "nonterminal_call (Move e) = True"
| "nonterminal_call (Fire i) = True"
| "nonterminal_call (Elapse t) = True"
| "nonterminal_call _ = False"

text \<open>The exported \<^verbatim>\<open>state\<close> object has the content it is created with.\<close>

definition idle_shape :: "'p world \<Rightarrow> bool" where
  "idle_shape w \<longleftrightarrow>
     state_props w = None \<and> state_dx w = Num 0 \<and> state_dy w = Num 0 \<and> \<not> state_canceled w"

text \<open>The timer of id \<open>i\<close> is pending.\<close>

definition pending :: "nat \<Rightarrow> 'p world \<Rightarrow> bool" where
  "pending i w \<longleftrightarrow> list_ex (\<lambda>t. fst t = i) (timers w)"

text \<open>
  Selection is suppressed over the body style \<open>B\<close>: \<^verbatim>\<open>style\<close> holds what each property
  read in \<open>B\<close>, and the slots that no property reaches are as in \<open>B\<close>.
\<close>

definition suppressed :: "(key \<Rightarrow> jsval) \<Rightarrow> 'p world \<Rightarrow> bool" where
  "suppressed B w \<longleftrightarrow>
     list_all (\<lambda>k. style w k = B (alias_of w k)) style_keys \<and>
     list_all (\<lambda>s. s \<in> set (map (alias_of w) style_keys) \<or> body_style w s = B s) style_keys"

text \<open>
  The gesture life cycle as the specification words it: a pointer-down on an attached
  surface begins a gesture when none is in progress; a pointer-down during a gesture, a
  release and a cancel event end it; nothing else changes whether a gesture is in
  progress.
\<close>

fun spec_in_progress_step :: "'p call \<Rightarrow> bool \<Rightarrow> bool" where
  "spec_in_progress_step (Start props delay e) active = (\<not> active)"
| "spec_in_progress_step Drop active = False"
| "spec_in_progress_step Cancel active = False"
| "spec_in_progress_step _ active = active"

fun spec_in_progress :: "'p call list \<Rightarrow> bool \<Rightarrow> bool" where
  "spec_in_progress [] active = active"
| "spec_in_progress (c # cs) active = spec_in_progress cs (spec_in_progress_step c active)"

text \<open>The calls that can come while the pointer rests: no pointer event among them.\<close>

fun waiting_call :: "'p call \<Rightarrow> bool" where
  "waiting_call (Attach props cfg) = True"
| "waiting_call (Fire i) = True"
| "waiting_call (Elapse t) = True"
| "waiting_call _ = False"

text \<open>The time that passes during a sequence of calls.\<close>

fun elapsed :: "'p call list \<Rightarrow> nat" where
  "elapsed [] = 0"
| "elapsed (Elapse t # cs) = t + elapsed cs"
| "elapsed (c # cs) = elapsed cs"

text \<open>The calls other than a pointer-down on a surface attached without a subject.\<close>

fun subject_call :: "'p call \<Rightarrow> bool" where
  "subject_call (Start None delay e) = False"
| "subject_call _ = True"

text \<open>
  No timer is pending except the one \<^verbatim>\<open>defer\<close> names, and \<^verbatim>\<open>defer\<close> is \<^verbatim>\<open>null\<close> when the
  subject is absent.
\<close>

definition tidy :: "'p world \<Rightarrow> bool" where
  "tidy w \<longleftrightarrow>
     list_all (\<lambda>t. defer_id w = Some (fst t)) (timers w) \<and>
     (state_props w \<noteq> None \<or> defer_id w = None)"

text \<open>
  A pending gesture: the timer \<open>i\<close> with event \<open>e\<close>, due at \<open>due\<close>, is the only pending
  timer and \<^verbatim>\<open>defer\<close> names it; the subject is \<open>p\<close>; the notifications so far are \<open>E\<close>.
\<close>

definition armed ::
  "nat \<Rightarrow> event \<Rightarrow> int \<Rightarrow> 'p \<Rightarrow> 'p notification list \<Rightarrow> 'p world \<Rightarrow> bool" where
  "armed i e due p E v \<longleftrightarrow>
     timers v = [(i, e, due)] \<and> defer_id v = Some i \<and> state_props v = Some p \<and>
     emitted v = E \<and> next_timer v = Suc i \<and> initial v = fill e"

text \<open>
  A gesture that the timer has started: no timer is pending, \<^verbatim>\<open>defer\<close> is \<^verbatim>\<open>null\<close>, the
  deltas are zero, and the notifications so far are \<open>E\<close>.
\<close>

definition started :: "nat \<Rightarrow> 'p \<Rightarrow> 'p notification list \<Rightarrow> 'p world \<Rightarrow> bool" where
  "started i p E v \<longleftrightarrow>
     timers v = [] \<and> defer_id v = None \<and> state_props v = Some p \<and>
     emitted v = E \<and> next_timer v = Suc i \<and>
     state_dx v = Num 0 \<and> state_dy v = Num 0 \<and> \<not> state_canceled v"

text \<open>The notification of type \<open>ty\<close> for a gesture with subject \<open>p\<close> that has not moved.\<close>

definition unmoved :: "ntype \<Rightarrow> 'p \<Rightarrow> 'p notification" where
  "unmoved ty p =
     \<lparr> ntype = ty, detail_props = Some p, detail_dx = Num 0, detail_dy = Num 0,
       detail_canceled = False \<rparr>"

text \<open>
  A gesture during which the pointer rests: still pending, or started by its timer with
  the one \<^verbatim>\<open>dnd-drag\<close> that this dispatches.
\<close>

definition resting ::
  "nat \<Rightarrow> event \<Rightarrow> int \<Rightarrow> 'p \<Rightarrow> 'p notification list \<Rightarrow> 'p world \<Rightarrow> bool" where
  "resting i e due p E v \<longleftrightarrow>
     armed i e due p E v \<and> \<not> state_canceled v \<or> started i p (E @ [unmoved Dnd_drag p]) v"

text \<open>
  The timer id \<open>i\<close> has been handed out and is not pending: no later call can make it
  pending again.
\<close>

definition absent :: "nat \<Rightarrow> 'p world \<Rightarrow> bool" where
  "absent i w \<longleftrightarrow> i < next_timer w \<and> \<not> pending i w"

text \<open>Whenever the subject is absent, the rest of \<^verbatim>\<open>state\<close> has its initial content.\<close>

definition idle_inv :: "'p world \<Rightarrow> bool" where
  "idle_inv w \<longleftrightarrow> (state_props w = None \<longrightarrow> idle_shape w)"

text \<open>
  Two concrete worlds for the examples: a freshly loaded module on a page whose body has
  custom selection styles, once with a subscriber that returns and once with one that
  throws on every \<^verbatim>\<open>dnd-drop\<close>.
\<close>

definition page_style :: "key \<Rightarrow> jsval" where
  "page_style k = (if k = UserSelect then Some ''text'' else if k = MsUserSelect then None else Some ''auto'')"

definition quiet_world :: "nat world" where
  "quiet_world = init_world (\<lambda>n. None) id page_style"

definition throwing_world :: "nat world" where
  "throwing_world =
     init_world (\<lambda>n. if ntype n = Dnd_drop then Some (HandlerError ''boom'') else None)
       id page_style"

section \<open>Properties\<close>

lemmas handler_defs =
  move_def drop_h_def cancel_def start_def cleanup_def dispatch_def custom_event_def
  try_finally_def setTimeout_def clearTimeout_def timer_callback_def fire_def elapse_def
  fill_def

lemma report_fields [simp]:
  "state_props (report r w) = state_props w" "state_dx (report r w) = state_dx w"
  "state_dy (report r w) = state_dy w" "state_canceled (report r w) = state_canceled w"
  "current (report r w) = current w" "initial (report r w) = initial w"
  "defer_id (report r w) = defer_id w" "detach (report r w) = detach w"
  "style (report r w) = style w" "body_style (report r w) = body_style w"
  "alias_of (report r w) = alias_of w" "timers (report r w) = timers w"
  "next_timer (report r w) = next_timer w" "now (report r w) = now w"
  "emitted (report r w) = emitted w" "subscriber (report r w) = subscriber w"
  "prevented (report r w) = prevented w"
  by (cases r; simp add: report_def)+

lemma reported_report:
  "reported (report r w) = reported w @ (case r of None \<Rightarrow> [] | Some err \<Rightarrow> [err])"
  by (cases r) (simp_all add: report_def)

lemma timeout_of_in_range:
  "- 2147483648 \<le> delay \<Longrightarrow> delay < 2147483648 \<Longrightarrow> timeout_of delay = max 0 delay"
proof -
  assume lo: "- 2147483648 \<le> delay" and hi: "delay < 2147483648"
  show ?thesis
  proof (cases "0 \<le> delay")
    case True
    with hi have "delay mod 4294967296 = delay" by simp
    with True hi show ?thesis by (simp add: timeout_of_def to_long_def Let_def)
  next
    case False
    with lo have "(delay + 4294967296) mod 4294967296 = delay + 4294967296"
      by (intro mod_pos_pos_trivial) simp_all
    then have "delay mod 4294967296 = delay + 4294967296" by simp
    with False lo show ?thesis by (simp add: timeout_of_def to_long_def Let_def)
  qed
qed

lemma timeout_of_nonneg: "0 \<le> timeout_of delay"
  by (simp add: timeout_of_def)

subsection \<open>Global wiring\<close>

text \<open>
  Claim C6 says that the function returned by \<^verbatim>\<open>init\<close> removes every window listener
  that \<^verbatim>\<open>init\<close> registered. On a window without listeners, \<^verbatim>\<open>init\<close> followed by the
  returned function leaves three of the seven behind: the \<^verbatim>\<open>contextmenu\<close> and
  \<^verbatim>\<open>touchcancel\<close> listeners, which the function never removes, and the \<^verbatim>\<open>touchstart\<close>
  listener, which was added with \<^verbatim>\<open>capture: true\<close> and is removed without the flag.
\<close>

theorem init_destructor_leaves_listeners:
  "snd (init []) (fst (init [])) =
     [(Contextmenu, Cancel_handler, False), (Touchcancel, Cancel_handler, False),
      (Touchstart, Cancel_handler, True)]"
  by (simp add: init_def init_destructor_def addEventListener_def removeEventListener_def Let_def)

lemma init_handlers:
  "window_handlers Contextmenu (fst (init [])) = [Cancel_handler]"
  "window_handlers Touchcancel (fst (init [])) = [Cancel_handler]"
  "window_handlers Touchstart (fst (init [])) = [Cancel_handler]"
  by (simp_all add: window_handlers_def init_def addEventListener_def Let_def)

subsection \<open>Attaching a surface\<close>

text \<open>
  Claim C10: \<^verbatim>\<open>draggable(props, element, config)\<close> with \<^verbatim>\<open>config\<close> absent throws a
  \<^verbatim>\<open>TypeError\<close>, whatever the subject and the state of the module; no default
  configuration is used.
\<close>

theorem draggable_absent_config_throws:
  "draggable props None w = Inl TypeError"
  by (simp add: draggable_def)

subsection \<open>Saving and restoring the selection style\<close>

lemma key_univ: "(\<forall>k. P k) \<longleftrightarrow> list_all P style_keys"
proof -
  have "(\<forall>k. P k) \<longleftrightarrow> P WebkitUserSelect \<and> P MozUserSelect \<and> P MsUserSelect \<and> P UserSelect"
    by (metis key.exhaust)
  then show ?thesis by (simp add: style_keys_def)
qed

lemma toggle_restores:
  assumes "suppressed B w"
  shows "body_style (toggleUserSelect w) = B"
proof
  fix s
  from assms have st: "\<And>k. style w k = B (alias_of w k)"
    and rest: "\<And>s. s \<in> set (map (alias_of w) style_keys) \<or> body_style w s = B s"
    by (simp_all add: suppressed_def key_univ [symmetric])
  show "body_style (toggleUserSelect w) s = B s"
  proof (cases "s \<in> set (map (alias_of w) style_keys)")
    case True
    then obtain k where k: "s = alias_of w k" by auto
    show ?thesis using st k
      by (cases k) (simp_all add: toggleUserSelect_def style_keys_def Let_def)
  next
    case False
    then have "\<forall>k. alias_of w k \<noteq> s" "\<forall>k. s \<noteq> alias_of w k"
      by (auto simp: style_keys_def intro: key.exhaust) (metis key.exhaust)+
    moreover from rest False have "body_style w s = B s" by blast
    ultimately show ?thesis
      by (simp add: toggleUserSelect_def style_keys_def Let_def)
  qed
qed

lemma toggle_suppresses: "suppressed (body_style w) (toggleUserSelect w)"
  unfolding suppressed_def key_univ [symmetric]
  by (auto simp: toggleUserSelect_def style_keys_def Let_def)

lemma suppressed_cong:
  "style w' = style w \<Longrightarrow> body_style w' = body_style w \<Longrightarrow> alias_of w' = alias_of w
   \<Longrightarrow> suppressed B w' = suppressed B w"
  by (simp add: suppressed_def)

subsection \<open>What each call changes\<close>

lemma nonterminal_step_keeps:
  assumes "nonterminal_call c"
  shows "state_props (step c w) = state_props w" "style (step c w) = style w"
    "body_style (step c w) = body_style w" "alias_of (step c w) = alias_of w"
    "subscriber (step c w) = subscriber w"
  using assms
  by (cases c; simp add: handler_defs draggable_def Let_def split: option.splits if_splits)+

lemma nonterminal_run_keeps:
  assumes "list_all nonterminal_call cs"
  shows "state_props (run cs w) = state_props w \<and> style (run cs w) = style w \<and>
    body_style (run cs w) = body_style w \<and> alias_of (run cs w) = alias_of w \<and>
    subscriber (run cs w) = subscriber w"
  using assms
proof (induction cs arbitrary: w)
  case Nil
  then show ?case by simp
next
  case (Cons c cs)
  then show ?case by (simp add: nonterminal_step_keeps)
qed

lemma start_idle_fields:
  assumes "state_props w = None"
  shows "state_props (snd (start props delay e w)) = props"
    "suppressed (body_style w) (snd (start props delay e w))"
    "subscriber (snd (start props delay e w)) = subscriber w"
    "defer_id (snd (start props delay e w)) = Some (next_timer w)"
    "emitted (snd (start props delay e w)) = emitted w"
    "fst (start props delay e w) = None"
  using assms toggle_suppresses [of w]
  by (simp_all add: start_def setTimeout_def Let_def suppressed_def)
     (simp_all add: toggleUserSelect_def)

lemma start_idle_timer:
  assumes "state_props w = None"
  shows "timers (snd (start props delay e w)) =
           timers w @ [(next_timer w, e, now w + timeout_of delay)]"
    and "next_timer (snd (start props delay e w)) = Suc (next_timer w)"
    and "now (snd (start props delay e w)) = now w"
    and "initial (snd (start props delay e w)) = fill e"
    and "state_dx (snd (start props delay e w)) = state_dx w"
    and "state_dy (snd (start props delay e w)) = state_dy w"
    and "state_canceled (snd (start props delay e w)) = state_canceled w"
    and "detach (snd (start props delay e w)) = detach w"
  using assms by (simp_all add: start_def setTimeout_def Let_def toggleUserSelect_def)

lemma cleanup_fields:
  assumes "state_props w \<noteq> None"
  shows "idle_shape (cleanup w)" "defer_id (cleanup w) = None"
    "initial (cleanup w) = (None, None)" "current (cleanup w) = (None, None)"
    "detach (cleanup w) = 2" "emitted (cleanup w) = emitted w"
    "timers (cleanup w) = timers (clearTimeout (defer_id w) w)"
    "body_style (cleanup w) = body_style (toggleUserSelect w)"
    "next_timer (cleanup w) = next_timer w"
    "reported (cleanup w) = reported w"
proof -
  from assms obtain p where p: "state_props w = Some p" by auto
  show "idle_shape (cleanup w)" "defer_id (cleanup w) = None"
    "initial (cleanup w) = (None, None)" "current (cleanup w) = (None, None)"
    "detach (cleanup w) = 2" "emitted (cleanup w) = emitted w"
    "timers (cleanup w) = timers (clearTimeout (defer_id w) w)"
    "body_style (cleanup w) = body_style (toggleUserSelect w)"
    "next_timer (cleanup w) = next_timer w"
    "reported (cleanup w) = reported w"
    by (simp_all add: p cleanup_def Let_def idle_shape_def clearTimeout_def toggleUserSelect_def
      split: option.splits)
qed

lemma cleanup_restores:
  assumes "state_props w \<noteq> None" "suppressed B w"
  shows "body_style (cleanup w) = B"
  using assms by (simp add: cleanup_fields toggle_restores)

lemma cancel_active:
  assumes "state_props w \<noteq> None"
  shows "cancel w =
    (None,
     cleanup (report (subscriber w (custom_event Dnd_drop (w\<lparr> state_canceled := True \<rparr>)))
       (w\<lparr> state_canceled := True,
          emitted := emitted w @ [custom_event Dnd_drop (w\<lparr> state_canceled := True \<rparr>)] \<rparr>)))"
  using assms
  by (cases "state_props w") (simp_all add: cancel_def try_finally_def dispatch_def Let_def)

lemma drop_active:
  assumes "state_props w \<noteq> None"
  shows "drop_h w =
    (if defer_id w = None then
       (None,
        cleanup (report (subscriber w (custom_event Dnd_drop w))
          (w\<lparr> emitted := emitted w @ [custom_event Dnd_drop w] \<rparr>)))
     else (None, cleanup w))"
  using assms
  by (cases "state_props w") (simp_all add: drop_h_def try_finally_def dispatch_def Let_def)

lemma start_active: "state_props w \<noteq> None \<Longrightarrow> start props delay e w = cancel w"
  by (cases "state_props w") (simp_all add: start_def)

lemma cancel_active_fields:
  assumes "state_props w \<noteq> None"
  shows "fst (cancel w) = None"
    and "emitted (snd (cancel w)) =
           emitted w @ [custom_event Dnd_drop (w\<lparr> state_canceled := True \<rparr>)]"
    and "idle_shape (snd (cancel w))"
    and "defer_id (snd (cancel w)) = None"
    and "timers (snd (cancel w)) = timers (clearTimeout (defer_id w) w)"
    and "next_timer (snd (cancel w)) = next_timer w"
    and "reported (snd (cancel w)) = reported w @
           (case subscriber w (custom_event Dnd_drop (w\<lparr> state_canceled := True \<rparr>)) of
              None \<Rightarrow> [] | Some err \<Rightarrow> [err])"
  using assms
  by (simp_all add: cancel_active cleanup_fields clearTimeout_def reported_report
      split: option.splits)

lemma drop_active_fields:
  assumes "state_props w \<noteq> None"
  shows "fst (drop_h w) = None"
    and "emitted (snd (drop_h w)) =
           (if defer_id w = None then emitted w @ [custom_event Dnd_drop w] else emitted w)"
    and "idle_shape (snd (drop_h w))"
    and "defer_id (snd (drop_h w)) = None"
    and "timers (snd (drop_h w)) = timers (clearTimeout (defer_id w) w)"
    and "next_timer (snd (drop_h w)) = next_timer w"
    and "reported (snd (drop_h w)) = reported w @
           (if defer_id w = None
            then (case subscriber w (custom_event Dnd_drop w) of None \<Rightarrow> [] | Some err \<Rightarrow> [err])
            else [])"
  using assms
  by (simp_all add: drop_active cleanup_fields clearTimeout_def reported_report
      split: option.splits)

lemma idle_noop:
  assumes "state_props w = None"
  shows "move e w = (None, w)" "drop_h w = (None, w)" "cancel w = (None, w)"
  using assms by (simp_all add: move_def drop_h_def cancel_def)

lemma move_pending:
  assumes "state_props w = Some p" "defer_id w = Some i" "initial w = (Some x0, Some y0)"
    "getPointer (Some e) = Some (x, y)"
  shows "move e w =
    (let w4 = w\<lparr> prevented := (if is_MouseEvent e then prevented w else Suc (prevented w)),
                 current := (Some x, Some y), state_dx := Num (x - x0), state_dy := Num (y - y0) \<rparr>
     in if (x - x0) + (y - y0) < detach w then (None, w4)
        else dispatch Dnd_drag (w4\<lparr> timers := filter (\<lambda>t. fst t \<noteq> i) (timers w),
               defer_id := None \<rparr>))"
  using assms by (simp add: move_def fill_def Let_def clearTimeout_def)

lemma move_dragging:
  assumes "state_props w = Some p" and "defer_id w = None"
    and "initial w = (Some x0, Some y0)" and "getPointer (Some e) = Some (x, y)"
  shows "emitted (snd (move e w)) = emitted w @
           [\<lparr> ntype = Dnd_drag, detail_props = Some p, detail_dx = Num (x - x0),
              detail_dy = Num (y - y0), detail_canceled = state_canceled w \<rparr>]"
    and "defer_id (snd (move e w)) = None"
    and "initial (snd (move e w)) = initial w"
    and "state_props (snd (move e w)) = Some p"
    and "state_dx (snd (move e w)) = Num (x - x0)"
    and "state_dy (snd (move e w)) = Num (y - y0)"
    and "state_canceled (snd (move e w)) = state_canceled w"
    and "timers (snd (move e w)) = timers w"
    and "next_timer (snd (move e w)) = next_timer w"
    and "now (snd (move e w)) = now w"
  using assms by (simp_all add: move_def fill_def Let_def dispatch_def custom_event_def)

subsection \<open>Timers\<close>

lemma pending_iff: "pending i w \<longleftrightarrow> i \<in> fst ` set (timers w)"
  by (auto simp: pending_def list_ex_iff)

lemma fire_not_pending: "\<not> pending i w \<Longrightarrow> fire i w = (None, w)"
proof -
  assume "\<not> pending i w"
  then have "find (\<lambda>t. fst t = i) (timers w) = None"
    by (auto simp: pending_def list_ex_iff find_None_iff)
  then show ?thesis by (simp add: fire_def)
qed

lemma fire_due:
  assumes "find (\<lambda>t. fst t = i) (timers w) = Some (j, e, due)" and "due \<le> now w"
  shows "fire i w = move e (w\<lparr> timers := filter (\<lambda>t. fst t \<noteq> i) (timers w), defer_id := None \<rparr>)"
  using assms by (simp add: fire_def timer_callback_def)

lemma cleared_not_pending:
  "defer_id w = Some i \<Longrightarrow> timers w' = timers (clearTimeout (defer_id w) w) \<Longrightarrow> \<not> pending i w'"
  by (simp add: pending_def clearTimeout_def list_ex_iff)

lemma cleanup_timers:
  "t \<in> set (timers (cleanup w)) \<Longrightarrow> t \<in> set (timers w)"
  "next_timer (cleanup w) = next_timer w"
  by (auto simp: cleanup_def Let_def clearTimeout_def toggleUserSelect_def
      split: option.splits if_splits)

lemma move_timers:
  "t \<in> set (timers (snd (move e w))) \<Longrightarrow> t \<in> set (timers w)"
  "next_timer (snd (move e w)) = next_timer w"
  by (auto simp: move_def Let_def clearTimeout_def dispatch_def split: option.splits if_splits)

lemma cancel_timers:
  "t \<in> set (timers (snd (cancel w))) \<Longrightarrow> t \<in> set (timers w)"
  "next_timer (snd (cancel w)) = next_timer w"
  by (auto simp: cancel_def try_finally_def dispatch_def Let_def cleanup_timers(2)
      dest!: cleanup_timers(1) split: if_splits)

lemma drop_timers:
  "t \<in> set (timers (snd (drop_h w))) \<Longrightarrow> t \<in> set (timers w)"
  "next_timer (snd (drop_h w)) = next_timer w"
  by (auto simp: drop_h_def try_finally_def dispatch_def Let_def cleanup_timers(2)
      dest!: cleanup_timers(1) split: if_splits)

lemma fire_timers:
  "t \<in> set (timers (snd (fire i w))) \<Longrightarrow> t \<in> set (timers w)"
  "next_timer (snd (fire i w)) = next_timer w"
  by (auto simp: fire_def timer_callback_def move_timers(2)
      dest!: move_timers(1) split: option.splits if_splits)

lemma start_timers:
  "t \<in> set (timers (snd (start props delay e w))) \<Longrightarrow> t \<in> set (timers w) \<or> fst t = next_timer w"
  "next_timer w \<le> next_timer (snd (start props delay e w))"
  by (auto simp: start_def setTimeout_def Let_def toggleUserSelect_def cancel_timers(2)
      dest!: cancel_timers(1) split: if_splits)

lemma absent_step: "absent i w \<Longrightarrow> absent i (step c w)"
proof (cases c)
  case (Attach props cfg)
  then show "absent i w \<Longrightarrow> absent i (step c w)"
    by (simp add: absent_def pending_def draggable_def Let_def split: option.splits)
next
  case (Start props delay e)
  then show "absent i w \<Longrightarrow> absent i (step c w)"
    using start_timers(2) [of w props delay e]
    by (auto simp: absent_def pending_iff dest!: start_timers(1))
next
  case (Move e)
  then show "absent i w \<Longrightarrow> absent i (step c w)"
    by (auto simp: absent_def pending_iff move_timers(2) dest!: move_timers(1))
next
  case Drop
  then show "absent i w \<Longrightarrow> absent i (step c w)"
    by (auto simp: absent_def pending_iff drop_timers(2) dest!: drop_timers(1))
next
  case Cancel
  then show "absent i w \<Longrightarrow> absent i (step c w)"
    by (auto simp: absent_def pending_iff cancel_timers(2) dest!: cancel_timers(1))
next
  case (Fire j)
  then show "absent i w \<Longrightarrow> absent i (step c w)"
    by (auto simp: absent_def pending_iff fire_timers(2) dest!: fire_timers(1))
next
  case (Elapse t)
  then show "absent i w \<Longrightarrow> absent i (step c w)"
    by (simp add: absent_def pending_def elapse_def)
qed

lemma absent_run: "absent i w \<Longrightarrow> absent i (run cs w)"
  by (induction cs arbitrary: w) (simp_all add: absent_step)

text \<open>The concrete worlds are idle and have no timers.\<close>

lemma quiet_world_idle:
  "state_props quiet_world = None" "idle_shape quiet_world" "now quiet_world = 0"
  "idle_inv quiet_world" "emitted quiet_world = []" "timers quiet_world = []"
  "next_timer quiet_world = 1" "body_style quiet_world = page_style" "detach quiet_world = 2"
  by (simp_all add: quiet_world_def init_world_def idle_shape_def idle_inv_def)

lemma throwing_world_idle:
  "state_props throwing_world = None" "body_style throwing_world = page_style"
  "next_timer throwing_world = 1" "emitted throwing_world = []"
  by (simp_all add: throwing_world_def init_world_def)

subsection \<open>The threshold test\<close>

text \<open>
  Claim C2: while a gesture is pending, \<^verbatim>\<open>move\<close> compares the signed sum \<open>dx + dy\<close> with
  \<^verbatim>\<open>detach\<close>: with both positions defined, a \<^verbatim>\<open>dnd-drag\<close> is dispatched exactly when that
  sum is not below \<^verbatim>\<open>detach\<close>. In particular, with \<^verbatim>\<open>detach\<close> = 2, a move displaced by
  (+5, -5) from the initial position throws nothing, dispatches nothing, leaves \<^verbatim>\<open>defer\<close>
  and the pending timers as they are, and records the deltas 5 and -5.
\<close>

theorem pending_move_compares_signed_sum:
  assumes "state_props w = Some p" and "defer_id w = Some i"
    and "initial w = (Some x0, Some y0)" and "getPointer (Some e) = Some (x, y)"
  shows "(emitted (snd (move e w)) = emitted w \<longleftrightarrow> (x - x0) + (y - y0) < detach w) \<and>
         (detach w = 2 \<and> x - x0 = 5 \<and> y - y0 = - 5 \<longrightarrow>
            fst (move e w) = None \<and> emitted (snd (move e w)) = emitted w \<and>
            defer_id (snd (move e w)) = Some i \<and> timers (snd (move e w)) = timers w \<and>
            state_dx (snd (move e w)) = Num 5 \<and> state_dy (snd (move e w)) = Num (- 5))"
  by (simp add: move_pending [OF assms] Let_def dispatch_def assms)

theorem pending_move_compares_signed_sum_witness:
  "state_props (snd (start (Some 7) 50 (MouseEvent (10, 20)) quiet_world)) = Some 7 \<and>
   defer_id (snd (start (Some 7) 50 (MouseEvent (10, 20)) quiet_world)) = Some 1 \<and>
   initial (snd (start (Some 7) 50 (MouseEvent (10, 20)) quiet_world)) = (Some 10, Some 20) \<and>
   getPointer (Some (MouseEvent (15, 15))) = Some (15, 15) \<and>
   emitted (snd (move (MouseEvent (15, 15))
     (snd (start (Some 7) 50 (MouseEvent (10, 20)) quiet_world)))) = [] \<and>
   defer_id (snd (move (MouseEvent (15, 15))
     (snd (start (Some 7) 50 (MouseEvent (10, 20)) quiet_world)))) = Some 1 \<and>
   state_dx (snd (move (MouseEvent (15, 15))
     (snd (start (Some 7) 50 (MouseEvent (10, 20)) quiet_world)))) = Num 5 \<and>
   state_dy (snd (move (MouseEvent (15, 15))
     (snd (start (Some 7) 50 (MouseEvent (10, 20)) quiet_world)))) = Num (- 5)"
proof -
  define w1 where "w1 = snd (start (Some 7) 50 (MouseEvent (10, 20)) quiet_world)"
  have h1: "state_props w1 = Some 7" and h2: "defer_id w1 = Some 1"
    and h3: "initial w1 = (Some 10, Some 20)"
    and d: "detach w1 = 2" and e: "emitted w1 = []"
    by (simp_all add: w1_def start_idle_fields start_idle_timer quiet_world_idle fill_def)
  have h4: "getPointer (Some (MouseEvent (15, 15))) = Some (15, 15)" by simp
  from pending_move_compares_signed_sum [OF h1 h2 h3 h4] d e h1 h2 h3 h4
  show ?thesis unfolding w1_def [symmetric] by simp
qed

text \<open>
  Claim C1 asks for the drag to start as soon as \<open>|dx| + |dy|\<close> reaches the threshold.
  After a pointer-down at (0, 0) with the default threshold 2, a move to (5, -5) has
  \<open>|dx| + |dy| = 10\<close>, yet nothing is dispatched, \<^verbatim>\<open>defer\<close> keeps the timer id and the
  timer stays pending: the gesture is still pending.
\<close>

theorem opposite_displacement_does_not_start_drag:
  "let w0 = init_world (\<lambda>n. None) id (\<lambda>k. None) :: nat world;
       w1 = snd (start (Some 7) 50 (MouseEvent (0, 0)) w0);
       w2 = snd (move (MouseEvent (5, - 5)) w1)
   in detach w1 \<le> \<bar>5\<bar> + \<bar>- 5\<bar> \<and> state_props w1 = Some 7 \<and> defer_id w1 = Some 1 \<and>
      emitted w2 = [] \<and> defer_id w2 = Some 1 \<and> pending 1 w2 \<and>
      state_dx w2 = Num 5 \<and> state_dy w2 = Num (- 5)"
  by (simp add: handler_defs init_world_def toggleUserSelect_def style_keys_def Let_def pending_def)

text \<open>
  When it is the signed sum that reaches the threshold, the rest of C1 holds: the move
  dispatches a \<^verbatim>\<open>dnd-drag\<close> with the delta from the pointer-down position, clears
  \<^verbatim>\<open>defer\<close> and the timer, which cannot run any more, and keeps \<^verbatim>\<open>initial\<close>, so that later
  moves (\<open>move_dragging\<close>) still measure from the pointer-down position.
\<close>

lemma pending_move_crossing_starts_drag:
  assumes "state_props w = Some p" and "defer_id w = Some i"
    and "initial w = (Some x0, Some y0)" and "getPointer (Some e) = Some (x, y)"
    and "detach w \<le> (x - x0) + (y - y0)"
  shows "emitted (snd (move e w)) = emitted w @
           [\<lparr> ntype = Dnd_drag, detail_props = Some p, detail_dx = Num (x - x0),
              detail_dy = Num (y - y0), detail_canceled = state_canceled w \<rparr>]"
    and "defer_id (snd (move e w)) = None"
    and "\<not> pending i (snd (move e w))"
    and "fire i (snd (move e w)) = (None, snd (move e w))"
    and "initial (snd (move e w)) = initial w"
    and "state_props (snd (move e w)) = Some p"
proof -
  have np: "\<not> pending i (snd (move e w))"
    using assms(5)
    by (simp add: move_pending [OF assms(1-4)] Let_def dispatch_def pending_def list_ex_iff)
  then show "fire i (snd (move e w)) = (None, snd (move e w))"
    by (rule fire_not_pending)
  show "\<not> pending i (snd (move e w))" by (rule np)
qed (use assms(5) in \<open>simp_all add: move_pending [OF assms(1-4)] Let_def dispatch_def
      custom_event_def assms(1,3)\<close>)

subsection \<open>While the pointer rests\<close>

lemma elapsed_Cons: "elapsed (c # cs) = elapsed [c] + elapsed cs"
  by (cases c) simp_all

lemma start_idle_armed:
  assumes "state_props w = None" and "timers w = []"
  shows "armed (next_timer w) e (now w + timeout_of delay) p (emitted w)
           (snd (start (Some p) delay e w))"
    and "now (snd (start (Some p) delay e w)) = now w"
    and "state_canceled (snd (start (Some p) delay e w)) = state_canceled w"
  using assms
  by (simp_all add: armed_def start_idle_fields start_idle_timer)

lemma armed_wait_step:
  assumes "armed i e due p E v" and "waiting_call c" and "now v + int (elapsed [c]) < due"
  shows "armed i e due p E (step c v)"
    and "now (step c v) = now v + int (elapsed [c])"
    and "state_canceled (step c v) = state_canceled v"
proof -
  from assms(1) have t: "timers v = [(i, e, due)]" by (simp add: armed_def)
  have f: "fire j v = (None, v)" for j
    using assms(3) t by (simp add: fire_def)
  show "armed i e due p E (step c v)"
    using assms(1,2)
    by (cases c) (simp_all add: f, simp_all add: armed_def draggable_def elapse_def Let_def
        split: option.splits)
  show "now (step c v) = now v + int (elapsed [c])"
    using assms(2)
    by (cases c) (simp_all add: f draggable_def elapse_def Let_def split: option.splits)
  show "state_canceled (step c v) = state_canceled v"
    using assms(2)
    by (cases c) (simp_all add: f draggable_def elapse_def Let_def split: option.splits)
qed

lemma armed_wait_run:
  assumes "armed i e due p E v" and "list_all waiting_call cs"
    and "now v + int (elapsed cs) < due"
  shows "armed i e due p E (run cs v) \<and> now (run cs v) = now v + int (elapsed cs) \<and>
         state_canceled (run cs v) = state_canceled v"
  using assms
proof (induction cs arbitrary: v)
  case Nil
  then show ?case by simp
next
  case (Cons c cs)
  from Cons.prems(2) have wc: "waiting_call c" and wcs: "list_all waiting_call cs" by simp_all
  from Cons.prems(3) have b: "now v + int (elapsed [c]) + int (elapsed cs) < due"
    by (simp add: elapsed_Cons [of c cs])
  then have b1: "now v + int (elapsed [c]) < due" by simp
  note st = armed_wait_step [OF Cons.prems(1) wc b1]
  from b have "now (step c v) + int (elapsed cs) < due" by (simp add: st(2))
  from Cons.IH [OF st(1) wcs this] show ?case
    by (simp add: st(2,3) elapsed_Cons [of c cs])
qed

subsection \<open>Release before the delay\<close>

text \<open>
  Claim C3, amended. The module is idle with no timer pending; a pointer-down carries a
  subject and a delay below \<open>2^31\<close>; then the pointer rests (timer callbacks of any id
  may be attempted, time passes, surfaces may be attached) for less than the delay; then
  comes the pointer-up. Nothing is dispatched before or by the release, the armed timer
  is still pending at the release, the release resets \<^verbatim>\<open>state\<close> and \<^verbatim>\<open>defer\<close> and leaves
  no timer pending, and whatever happens later the armed timer is never pending again
  and never runs.
\<close>

theorem down_wait_up_before_delay_is_silent:
  assumes "state_props w = None" and "timers w = []" and "list_all waiting_call cs"
    and "int (elapsed cs) < delay" and "delay < 2147483648"
  shows "let i = next_timer w;
             w1 = snd (start (Some p) delay e w);
             w2 = run cs w1;
             w3 = snd (drop_h w2)
         in emitted w2 = emitted w \<and> defer_id w2 = Some i \<and> pending i w2 \<and>
            fst (drop_h w2) = None \<and> emitted w3 = emitted w \<and>
            idle_shape w3 \<and> defer_id w3 = None \<and> timers w3 = [] \<and>
            (\<forall>cs'. \<not> pending i (run cs' w3) \<and> fire i (run cs' w3) = (None, run cs' w3))"
proof -
  define i where "i = next_timer w"
  define w1 where "w1 = snd (start (Some p) delay e w)"
  define w2 where "w2 = run cs w1"
  define w3 where "w3 = snd (drop_h w2)"
  have pos: "0 \<le> delay" using assms(4) by simp
  then have to: "timeout_of delay = delay"
    using assms(5) by (simp add: timeout_of_in_range)
  note a1 = start_idle_armed [OF assms(1,2), where e = e and delay = delay and p = p, folded w1_def i_def, unfolded to]
  have "now w1 + int (elapsed cs) < now w + delay"
    using assms(4) by (simp add: a1(2))
  from armed_wait_run [OF a1(1) assms(3) this]
  have a2: "armed i e (now w + delay) p (emitted w) w2" by (simp add: w2_def)
  then have w2: "state_props w2 = Some p" "defer_id w2 = Some i" "emitted w2 = emitted w"
    "timers w2 = [(i, e, now w + delay)]" "next_timer w2 = Suc i"
    by (simp_all add: armed_def)
  have p2: "pending i w2" by (simp add: pending_def w2)
  have act: "state_props w2 \<noteq> None" by (simp add: w2)
  note d = drop_active_fields [OF act, folded w3_def]
  have d1: "fst (drop_h w2) = None" by (simp add: drop_active_fields(1) [OF act])
  have d2: "emitted w3 = emitted w" by (simp add: d w2)
  have d3: "timers w3 = []" by (simp add: d w2 clearTimeout_def)
  have "absent i w3"
    by (simp add: absent_def d(6) d3 w2(5) pending_def)
  then have "\<forall>cs'. absent i (run cs' w3)"
    by (simp add: absent_run)
  then have nev: "\<forall>cs'. \<not> pending i (run cs' w3) \<and> fire i (run cs' w3) = (None, run cs' w3)"
    by (simp add: absent_def fire_not_pending)
  show ?thesis
    unfolding Let_def i_def [symmetric] w1_def [symmetric] w2_def [symmetric] w3_def [symmetric]
    using w2(3,2) p2 d1 d2 d(3,4) d3 nev by blast
qed

theorem down_wait_up_before_delay_is_silent_witness:
  "state_props quiet_world = None \<and> timers quiet_world = [] \<and>
   list_all waiting_call [Elapse 10, Fire 1, Elapse 30, Fire 1 :: nat call] \<and>
   int (elapsed [Elapse 10, Fire 1, Elapse 30, Fire 1 :: nat call]) < (50::int) \<and>
   (50::int) < 2147483648 \<and>
   emitted (snd (drop_h (run [Elapse 10, Fire 1, Elapse 30, Fire 1]
     (snd (start (Some 7) 50 (MouseEvent (10, 20)) quiet_world))))) = [] \<and>
   idle_shape (snd (drop_h (run [Elapse 10, Fire 1, Elapse 30, Fire 1]
     (snd (start (Some 7) 50 (MouseEvent (10, 20)) quiet_world))))) \<and>
   timers (snd (drop_h (run [Elapse 10, Fire 1, Elapse 30, Fire 1]
     (snd (start (Some 7) 50 (MouseEvent (10, 20)) quiet_world))))) = []"
proof -
  have h1: "state_props quiet_world = None" and h2: "timers quiet_world = []"
    by (simp_all add: quiet_world_idle)
  have h3: "list_all waiting_call [Elapse 10, Fire 1, Elapse 30, Fire 1 :: nat call]" by simp
  have h4: "int (elapsed [Elapse 10, Fire 1, Elapse 30, Fire 1 :: nat call]) < (50::int)" by simp
  have h5: "(50::int) < 2147483648" by simp
  from down_wait_up_before_delay_is_silent [OF h1 h2 h3 h4 h5, of 7 "MouseEvent (10, 20)"]
    h1 h2 h3 h4
  show ?thesis by (simp add: Let_def quiet_world_idle(5))
qed

text \<open>
  The claim as it stands fails in two ways. With a delay of \<open>2^31\<close> the timer is due at
  once: it runs right after the pointer-down, and the release then dispatches too. And
  a timer left behind by an earlier pointer-down without a subject can run during the
  next gesture, 5 ms after its pointer-down with a delay of 50.
\<close>

theorem release_before_delay_is_not_always_silent:
  "int 0 < (2147483648::int) \<and>
   emitted (snd (drop_h (run [Elapse 0, Fire 1]
     (snd (start (Some 7) 2147483648 (MouseEvent (10, 20)) quiet_world))))) =
     [\<lparr> ntype = Dnd_drag, detail_props = Some 7, detail_dx = Num 0, detail_dy = Num 0,
        detail_canceled = False \<rparr>,
      \<lparr> ntype = Dnd_drop, detail_props = Some 7, detail_dx = Num 0, detail_dy = Num 0,
        detail_canceled = False \<rparr>] \<and>
   state_props (run [Start None 50 (MouseEvent (1, 2)), Elapse 50] quiet_world) = None \<and>
   int 5 < (50::int) \<and>
   emitted (snd (drop_h (run [Elapse 5, Fire 1]
     (snd (start (Some 7) 50 (MouseEvent (10, 20))
        (run [Start None 50 (MouseEvent (1, 2)), Elapse 50] quiet_world)))))) =
     [\<lparr> ntype = Dnd_drag, detail_props = Some 7, detail_dx = Num (- 9), detail_dy = Num (- 18),
        detail_canceled = False \<rparr>,
      \<lparr> ntype = Dnd_drop, detail_props = Some 7, detail_dx = Num (- 9), detail_dy = Num (- 18),
        detail_canceled = False \<rparr>]"
  by (simp add: quiet_world_def init_world_def handler_defs report_def timeout_of_def
      to_long_def toggleUserSelect_def style_keys_def Let_def)

subsection \<open>Cancelling\<close>

text \<open>
  Claim C4: while a gesture is in progress, pending or dragging alike, the window
  listeners that \<^verbatim>\<open>init\<close> registers for \<^verbatim>\<open>contextmenu\<close>, \<^verbatim>\<open>touchcancel\<close> and
  \<^verbatim>\<open>touchstart\<close> each run \<^verbatim>\<open>cancel\<close> and nothing else, and a pointer-down on a surface
  (\<^verbatim>\<open>start\<close>) does what \<^verbatim>\<open>cancel\<close> does. \<^verbatim>\<open>cancel\<close> dispatches exactly one notification, a
  \<^verbatim>\<open>dnd-drop\<close> with the subject, the current delta and \<^verbatim>\<open>canceled\<close> true; afterwards
  \<^verbatim>\<open>state\<close> has its initial content, \<^verbatim>\<open>defer\<close> is \<^verbatim>\<open>null\<close> and the timer that was armed is
  not pending.
\<close>

theorem cancel_paths_emit_canceled_drop:
  assumes "state_props w = Some p"
  shows "map (\<lambda>h. run_handler h ev w) (window_handlers Contextmenu (fst (init []))) = [cancel w] \<and>
         map (\<lambda>h. run_handler h ev w) (window_handlers Touchcancel (fst (init []))) = [cancel w] \<and>
         map (\<lambda>h. run_handler h ev w) (window_handlers Touchstart (fst (init []))) = [cancel w] \<and>
         start props' delay e w = cancel w \<and>
         emitted (snd (cancel w)) = emitted w @
           [\<lparr> ntype = Dnd_drop, detail_props = Some p, detail_dx = state_dx w,
              detail_dy = state_dy w, detail_canceled = True \<rparr>] \<and>
         idle_shape (snd (cancel w)) \<and> defer_id (snd (cancel w)) = None \<and>
         (\<forall>i. defer_id w = Some i \<longrightarrow> \<not> pending i (snd (cancel w)))"
proof -
  have act: "state_props w \<noteq> None" by (simp add: assms)
  note c = cancel_active_fields [OF act]
  have "\<forall>i. defer_id w = Some i \<longrightarrow> \<not> pending i (snd (cancel w))"
    using cleared_not_pending [OF _ c(5)] by blast
  then show ?thesis
    by (simp add: init_handlers start_active [OF act] c custom_event_def assms)
qed

theorem cancel_paths_emit_canceled_drop_witness:
  "state_props (snd (start (Some 7) 50 (MouseEvent (10, 20)) quiet_world)) = Some 7 \<and>
   defer_id (snd (start (Some 7) 50 (MouseEvent (10, 20)) quiet_world)) = Some 1 \<and>
   emitted (snd (cancel (snd (start (Some 7) 50 (MouseEvent (10, 20)) quiet_world)))) =
     [\<lparr> ntype = Dnd_drop, detail_props = Some 7, detail_dx = Num 0, detail_dy = Num 0,
        detail_canceled = True \<rparr>] \<and>
   idle_shape (snd (cancel (snd (start (Some 7) 50 (MouseEvent (10, 20)) quiet_world)))) \<and>
   \<not> pending 1 (snd (cancel (snd (start (Some 7) 50 (MouseEvent (10, 20)) quiet_world))))"
proof -
  define w1 where "w1 = snd (start (Some 7) 50 (MouseEvent (10, 20)) quiet_world)"
  have h: "state_props w1 = Some 7" and d: "defer_id w1 = Some 1"
    and f: "emitted w1 = []" "state_dx w1 = Num 0" "state_dy w1 = Num 0"
    using quiet_world_idle(2)
    by (simp_all add: w1_def start_idle_fields start_idle_timer quiet_world_idle idle_shape_def)
  from cancel_paths_emit_canceled_drop [OF h, of "MouseEvent (0, 0)" None 0 "MouseEvent (0, 0)"]
    h d f
  show ?thesis unfolding w1_def [symmetric] by simp
qed

subsection \<open>Start by timeout\<close>

lemma fire_armed_due:
  assumes "armed i e due p E v" and "\<not> state_canceled v"
    and "getPointer (Some e) = Some pt" and "due \<le> now v"
  shows "started i p (E @ [unmoved Dnd_drag p]) (snd (fire i v))"
    and "now (snd (fire i v)) = now v"
proof -
  define v' where "v' = v\<lparr> timers := filter (\<lambda>t. fst t \<noteq> i) (timers v), defer_id := None \<rparr>"
  obtain x y where pt: "pt = (x, y)" by (cases pt)
  from assms(1) have a: "timers v = [(i, e, due)]" "state_props v = Some p" "emitted v = E"
    "next_timer v = Suc i" "initial v = fill e"
    by (simp_all add: armed_def)
  have "find (\<lambda>t. fst t = i) (timers v) = Some (i, e, due)" by (simp add: a)
  from fire_due [OF this assms(4)] have f: "fire i v = move e v'" by (simp add: v'_def)
  have v': "state_props v' = Some p" "defer_id v' = None" "initial v' = (Some x, Some y)"
    using assms(3) by (simp_all add: v'_def a fill_def pt)
  note m = move_dragging [OF v' assms(3) [unfolded pt]]
  show "started i p (E @ [unmoved Dnd_drag p]) (snd (fire i v))"
    using assms(2) by (simp add: f started_def m unmoved_def) (simp add: v'_def a)
  show "now (snd (fire i v)) = now v"
    by (simp add: f m) (simp add: v'_def)
qed

lemma fire_started: "started i p E v \<Longrightarrow> fire j v = (None, v)"
  by (simp add: started_def fire_def)

lemma drop_started:
  assumes "started i p E v"
  shows "fst (drop_h v) = None" and "emitted (snd (drop_h v)) = E @ [unmoved Dnd_drop p]"
    and "idle_shape (snd (drop_h v))" and "timers (snd (drop_h v)) = []"
proof -
  from assms have s: "timers v = []" "defer_id v = None" "state_props v = Some p" "emitted v = E"
    "state_dx v = Num 0" "state_dy v = Num 0" "\<not> state_canceled v"
    by (simp_all add: started_def)
  have act: "state_props v \<noteq> None" by (simp add: s)
  note d = drop_active_fields [OF act]
  show "fst (drop_h v) = None" by (rule d(1))
  show "emitted (snd (drop_h v)) = E @ [unmoved Dnd_drop p]"
    by (simp add: d(2) s custom_event_def unmoved_def)
  show "idle_shape (snd (drop_h v))" by (rule d(3))
  show "timers (snd (drop_h v)) = []" by (simp add: d(5) s clearTimeout_def)
qed

lemma resting_step:
  assumes "resting i e due p E v" and "getPointer (Some e) = Some pt" and "waiting_call c"
  shows "resting i e due p E (step c v) \<and> now (step c v) = now v + int (elapsed [c])"
proof (cases "started i p (E @ [unmoved Dnd_drag p]) v")
  case True
  then have "started i p (E @ [unmoved Dnd_drag p]) (step c v)"
    using assms(3)
    by (cases c) (simp_all add: fire_started [OF True],
        simp_all add: started_def draggable_def elapse_def Let_def split: option.splits)
  moreover have "now (step c v) = now v + int (elapsed [c])"
    using assms(3)
    by (cases c) (simp_all add: fire_started [OF True] draggable_def elapse_def Let_def
        split: option.splits)
  ultimately show ?thesis by (simp add: resting_def)
next
  case False
  with assms(1) have a: "armed i e due p E v" and nc: "\<not> state_canceled v"
    by (auto simp: resting_def)
  show ?thesis
  proof (cases "now v + int (elapsed [c]) < due")
    case True
    from armed_wait_step [OF a assms(3) True] nc show ?thesis
      by (simp add: resting_def)
  next
    case late: False
    show ?thesis
    proof (cases c)
      case (Attach props cfg)
      then show ?thesis
        using a nc
        by (simp add: resting_def armed_def draggable_def Let_def split: option.splits)
    next
      case (Elapse t)
      then show ?thesis
        using a nc by (simp add: resting_def armed_def elapse_def)
    next
      case (Fire j)
      show ?thesis
      proof (cases "j = i")
        case True
        from late Fire have "due \<le> now v" by simp
        from fire_armed_due [OF a nc assms(2) this] show ?thesis
          by (simp add: Fire True resting_def)
      next
        case False
        with a have "fire j v = (None, v)" by (simp add: fire_def armed_def)
        then show ?thesis using a nc by (simp add: Fire resting_def)
      qed
    qed (use assms(3) in simp_all)
  qed
qed

lemma resting_run:
  assumes "resting i e due p E v" and "getPointer (Some e) = Some pt"
    and "list_all waiting_call cs"
  shows "resting i e due p E (run cs v) \<and> now (run cs v) = now v + int (elapsed cs)"
  using assms(1,3)
proof (induction cs arbitrary: v)
  case Nil
  then show ?case by simp
next
  case (Cons c cs)
  from Cons.prems(2) have wc: "waiting_call c" and wcs: "list_all waiting_call cs" by simp_all
  note st = resting_step [OF Cons.prems(1) assms(2) wc]
  from Cons.IH [OF conjunct1 [OF st] wcs] show ?case
    by (simp add: conjunct2 [OF st] elapsed_Cons [of c cs])
qed

text \<open>
  Claim C5, amended. The module is idle with no timer pending; a pointer-down carries a
  subject, a defined position and a delay in the range of the host's timers; then the
  pointer rests (timer callbacks of any id may be attempted, time passes, surfaces may
  be attached). At every moment of the rest, at most one notification has been
  dispatched, a \<^verbatim>\<open>dnd-drag\<close> with delta (0, 0); none has while less than the delay has
  passed; once the delay has passed, running the timer gives exactly that one
  \<^verbatim>\<open>dnd-drag\<close>, whether or not it has run before; and when the \<^verbatim>\<open>dnd-drag\<close> has been
  dispatched, a pointer-up returns normally, dispatches exactly one more notification,
  a \<^verbatim>\<open>dnd-drop\<close> with delta (0, 0) and \<^verbatim>\<open>canceled\<close> false, resets \<^verbatim>\<open>state\<close> and leaves no
  timer pending.
\<close>

theorem timer_start_emits_one_drag_then_drop:
  assumes "idle_shape w" and "timers w = []" and "getPointer (Some e) = Some pt"
    and "list_all waiting_call cs"
    and "- 2147483648 \<le> delay" and "delay < 2147483648"
  shows "let i = next_timer w;
             g = run cs (snd (start (Some p) delay e w));
             drag = \<lparr> ntype = Dnd_drag, detail_props = Some p, detail_dx = Num 0,
                      detail_dy = Num 0, detail_canceled = False \<rparr>;
             drp = \<lparr> ntype = Dnd_drop, detail_props = Some p, detail_dx = Num 0,
                     detail_dy = Num 0, detail_canceled = False \<rparr>
         in (emitted g = emitted w \<or> emitted g = emitted w @ [drag]) \<and>
            (int (elapsed cs) < delay \<longrightarrow> emitted g = emitted w) \<and>
            (delay \<le> int (elapsed cs) \<longrightarrow> emitted (snd (fire i g)) = emitted w @ [drag]) \<and>
            (emitted g = emitted w @ [drag] \<longrightarrow>
               fst (drop_h g) = None \<and> emitted (snd (drop_h g)) = emitted w @ [drag, drp] \<and>
               idle_shape (snd (drop_h g)) \<and> timers (snd (drop_h g)) = [])"
proof -
  define i where "i = next_timer w"
  define w1 where "w1 = snd (start (Some p) delay e w)"
  define g where "g = run cs w1"
  define due where "due = now w + max 0 delay"
  have idle: "state_props w = None" "\<not> state_canceled w"
    using assms(1) by (simp_all add: idle_shape_def)
  have to: "timeout_of delay = max 0 delay"
    using assms(5,6) by (rule timeout_of_in_range)
  note a1 = start_idle_armed [OF idle(1) assms(2), where e = e and delay = delay and p = p,
      folded w1_def i_def, unfolded to, folded due_def]
  have r1: "resting i e due p (emitted w) w1"
    using a1(1,3) idle(2) by (simp add: resting_def)
  from resting_run [OF r1 assms(3,4)]
  have rg: "resting i e due p (emitted w) g" and ng: "now g = now w + int (elapsed cs)"
    by (simp_all add: g_def a1(2))
  have ne: "emitted w \<noteq> emitted w @ [unmoved Dnd_drag p]" by simp
  have c1: "emitted g = emitted w \<or> emitted g = emitted w @ [unmoved Dnd_drag p]"
    using rg by (auto simp: resting_def armed_def started_def)
  have c2: "emitted g = emitted w" if "int (elapsed cs) < delay"
  proof -
    from that have "now w1 + int (elapsed cs) < due" by (simp add: a1(2) due_def)
    from armed_wait_run [OF a1(1) assms(4) this] show ?thesis
      by (simp add: g_def armed_def)
  qed
  have c3: "emitted (snd (fire i g)) = emitted w @ [unmoved Dnd_drag p]"
    if "delay \<le> int (elapsed cs)"
  proof (cases "started i p (emitted w @ [unmoved Dnd_drag p]) g")
    case True
    then show ?thesis by (simp add: fire_started [OF True] started_def)
  next
    case False
    with rg have a: "armed i e due p (emitted w) g" and nc: "\<not> state_canceled g"
      by (auto simp: resting_def)
    from that have "due \<le> now g" by (simp add: ng due_def)
    from fire_armed_due(1) [OF a nc assms(3) this] show ?thesis
      by (simp add: started_def)
  qed
  have c4: "fst (drop_h g) = None \<and>
      emitted (snd (drop_h g)) = emitted w @ [unmoved Dnd_drag p, unmoved Dnd_drop p] \<and>
      idle_shape (snd (drop_h g)) \<and> timers (snd (drop_h g)) = []"
    if "emitted g = emitted w @ [unmoved Dnd_drag p]"
  proof -
    from that ne have "\<not> armed i e due p (emitted w) g" by (auto simp: armed_def)
    with rg have "started i p (emitted w @ [unmoved Dnd_drag p]) g" by (simp add: resting_def)
    from drop_started [OF this] show ?thesis by simp
  qed
  show ?thesis
    unfolding Let_def i_def [symmetric] w1_def [symmetric] g_def [symmetric]
    using c1 c2 c3 c4 unfolding unmoved_def by blast
qed

theorem timer_start_emits_one_drag_then_drop_witness:
  "idle_shape quiet_world \<and> timers quiet_world = [] \<and>
   getPointer (Some (MouseEvent (10, 20))) = Some (10, 20) \<and>
   list_all waiting_call [Elapse 20, Fire 1, Elapse 30 :: nat call] \<and>
   list_all waiting_call [Elapse 20, Fire 1, Elapse 30, Fire 1 :: nat call] \<and>
   - 2147483648 \<le> (50::int) \<and> (50::int) < 2147483648 \<and>
   (50::int) \<le> int (elapsed [Elapse 20, Fire 1, Elapse 30 :: nat call]) \<and>
   emitted (run [Elapse 20, Fire 1, Elapse 30, Fire 1]
       (snd (start (Some 7) 50 (MouseEvent (10, 20)) quiet_world))) =
     [\<lparr> ntype = Dnd_drag, detail_props = Some 7, detail_dx = Num 0, detail_dy = Num 0,
        detail_canceled = False \<rparr>] \<and>
   emitted (snd (drop_h (run [Elapse 20, Fire 1, Elapse 30, Fire 1]
       (snd (start (Some 7) 50 (MouseEvent (10, 20)) quiet_world))))) =
     [\<lparr> ntype = Dnd_drag, detail_props = Some 7, detail_dx = Num 0, detail_dy = Num 0,
        detail_canceled = False \<rparr>,
      \<lparr> ntype = Dnd_drop, detail_props = Some 7, detail_dx = Num 0, detail_dy = Num 0,
        detail_canceled = False \<rparr>]"
proof -
  define w1 where "w1 = snd (start (Some 7) 50 (MouseEvent (10, 20)) quiet_world)"
  have h1: "idle_shape quiet_world" and h2: "timers quiet_world = []"
    by (simp_all add: quiet_world_idle)
  have h3: "getPointer (Some (MouseEvent (10, 20))) = Some (10, 20)" by simp
  have h4: "list_all waiting_call [Elapse 20, Fire 1, Elapse 30 :: nat call]" by simp
  have h4': "list_all waiting_call [Elapse 20, Fire 1, Elapse 30, Fire 1 :: nat call]" by simp
  have h5: "- 2147483648 \<le> (50::int)" and h6: "(50::int) < 2147483648" by simp_all
  have late: "(50::int) \<le> int (elapsed [Elapse 20, Fire 1, Elapse 30 :: nat call])" by simp
  have r: "run [Elapse 20, Fire 1, Elapse 30, Fire 1] w1
      = snd (fire 1 (run [Elapse 20, Fire 1, Elapse 30] w1))"
    by simp
  from timer_start_emits_one_drag_then_drop [OF h1 h2 h3 h4 h5 h6, of 7] late
  have e1: "emitted (run [Elapse 20, Fire 1, Elapse 30, Fire 1] w1) =
     [\<lparr> ntype = Dnd_drag, detail_props = Some 7, detail_dx = Num 0, detail_dy = Num 0,
        detail_canceled = False \<rparr>]"
    unfolding Let_def w1_def [symmetric] r by (simp add: quiet_world_idle(5,7))
  from timer_start_emits_one_drag_then_drop [OF h1 h2 h3 h4' h5 h6, of 7] e1
  have e2: "emitted (snd (drop_h (run [Elapse 20, Fire 1, Elapse 30, Fire 1] w1))) =
     [\<lparr> ntype = Dnd_drag, detail_props = Some 7, detail_dx = Num 0, detail_dy = Num 0,
        detail_canceled = False \<rparr>,
      \<lparr> ntype = Dnd_drop, detail_props = Some 7, detail_dx = Num 0, detail_dy = Num 0,
        detail_canceled = False \<rparr>]"
    unfolding Let_def w1_def [symmetric] by (simp add: quiet_world_idle(5,7))
  from h1 h2 h3 h4 h4' h5 h6 late e1 e2 show ?thesis
    unfolding w1_def [symmetric] by (intro conjI)
qed

text \<open>
  The claim as it stands fails in two ways. With a delay of \<open>2^31\<close> the timer is due at
  once, so the \<^verbatim>\<open>dnd-drag\<close> is dispatched before the delay has passed. And a timer left
  behind by an earlier pointer-down without a subject runs during the next gesture as
  well, so that two \<^verbatim>\<open>dnd-drag\<close> are dispatched with no move.
\<close>

theorem timer_drag_can_come_early_or_twice:
  "int 0 < (2147483648::int) \<and>
   emitted (run [Elapse 0, Fire 1]
     (snd (start (Some 7) 2147483648 (MouseEvent (10, 20)) quiet_world))) =
     [\<lparr> ntype = Dnd_drag, detail_props = Some 7, detail_dx = Num 0, detail_dy = Num 0,
        detail_canceled = False \<rparr>] \<and>
   state_props (run [Start None 50 (MouseEvent (1, 2)), Elapse 50] quiet_world) = None \<and>
   emitted (run [Elapse 50, Fire 1, Fire 2]
     (snd (start (Some 7) 50 (MouseEvent (10, 20))
        (run [Start None 50 (MouseEvent (1, 2)), Elapse 50] quiet_world)))) =
     [\<lparr> ntype = Dnd_drag, detail_props = Some 7, detail_dx = Num (- 9), detail_dy = Num (- 18),
        detail_canceled = False \<rparr>,
      \<lparr> ntype = Dnd_drag, detail_props = Some 7, detail_dx = Num 0, detail_dy = Num 0,
        detail_canceled = False \<rparr>]"
  by (simp add: quiet_world_def init_world_def handler_defs report_def timeout_of_def
      to_long_def toggleUserSelect_def style_keys_def Let_def)

subsection \<open>A gesture, from pointer-down to its end\<close>

lemma gesture_keeps:
  assumes "state_props w = None" "list_all nonterminal_call cs"
  shows "state_props (run cs (snd (start props delay e w))) = props"
    "suppressed (body_style w) (run cs (snd (start props delay e w)))"
    "subscriber (run cs (snd (start props delay e w))) = subscriber w"
proof -
  note k = nonterminal_run_keeps [OF assms(2), of "snd (start props delay e w)"]
  show "state_props (run cs (snd (start props delay e w))) = props"
    using k by (simp add: start_idle_fields [OF assms(1)])
  show "subscriber (run cs (snd (start props delay e w))) = subscriber w"
    using k by (simp add: start_idle_fields [OF assms(1)])
  have "suppressed (body_style w) (run cs (snd (start props delay e w)))
      = suppressed (body_style w) (snd (start props delay e w))"
    using k by (intro suppressed_cong) simp_all
  then show "suppressed (body_style w) (run cs (snd (start props delay e w)))"
    by (simp add: start_idle_fields [OF assms(1)])
qed

lemma gesture_end_restores:
  assumes "state_props w = None" and "list_all nonterminal_call cs"
    and "g = run cs (snd (start (Some p) delay e w))"
  shows "body_style (snd (drop_h g)) = body_style w"
    and "body_style (snd (cancel g)) = body_style w"
    and "body_style (snd (start props' delay' e' g)) = body_style w"
proof -
  have act: "state_props g \<noteq> None" and sup: "suppressed (body_style w) g"
    using gesture_keeps [OF assms(1,2), of "Some p" delay e] by (simp_all add: assms(3))
  show "body_style (snd (drop_h g)) = body_style w"
    using act sup by (simp add: drop_active cleanup_restores suppressed_def)
  show c: "body_style (snd (cancel g)) = body_style w"
    using act sup by (simp add: cancel_active cleanup_restores suppressed_def)
  show "body_style (snd (start props' delay' e' g)) = body_style w"
    using act c by (simp add: start_active)
qed

text \<open>
  Claim C7: a gesture begins with a pointer-down carrying a subject on an idle module
  and goes on through any moves, timer callbacks, passing of time and attaching of
  surfaces. Whichever call then ends it and runs \<^verbatim>\<open>cleanup\<close> (a release, a cancel event,
  or a further pointer-down), the body style afterwards is exactly the body style from
  before the pointer-down, for every content of the four properties, of \<^verbatim>\<open>style\<close>, and
  for every aliasing between the properties.
\<close>

theorem selection_style_round_trip:
  assumes "state_props w = None" and "list_all nonterminal_call cs"
  shows "let g = run cs (snd (start (Some p) delay e w))
         in body_style (snd (drop_h g)) = body_style w \<and>
            body_style (snd (cancel g)) = body_style w \<and>
            body_style (snd (start props' delay' e' g)) = body_style w"
  using gesture_end_restores [OF assms refl] by (simp add: Let_def)

theorem selection_style_round_trip_witness:
  "state_props quiet_world = None \<and>
   list_all nonterminal_call
     [Move (MouseEvent (30, 40)), Elapse 60, Fire 1, Move (MouseEvent (31, 41))] \<and>
   body_style (snd (drop_h (run
       [Move (MouseEvent (30, 40)), Elapse 60, Fire 1, Move (MouseEvent (31, 41))]
       (snd (start (Some 7) 50 (MouseEvent (10, 20)) quiet_world))))) = page_style \<and>
   body_style (snd (cancel (run
       [Move (MouseEvent (30, 40)), Elapse 60, Fire 1, Move (MouseEvent (31, 41))]
       (snd (start (Some 7) 50 (MouseEvent (10, 20)) quiet_world))))) = page_style \<and>
   page_style UserSelect = Some ''text''"
proof -
  have h1: "state_props quiet_world = None" by (simp add: quiet_world_idle)
  have h2: "list_all nonterminal_call
     [Move (MouseEvent (30, 40)), Elapse 60, Fire 1, Move (MouseEvent (31, 41)) :: nat call]"
    by simp
  from selection_style_round_trip [OF h1 h2, of 7 50 "MouseEvent (10, 20)" None 0 "MouseEvent (0, 0)"]
    h1 h2
  show ?thesis by (simp add: Let_def quiet_world_idle(8) page_style_def)
qed

text \<open>
  Claim C8, amended. Take a gesture as in C7. If a listener throws \<open>err\<close> on the
  \<^verbatim>\<open>dnd-drop\<close> when the gesture is released while dragging, or when it is cancelled
  (pending or dragging), the host reports \<open>err\<close> and the call returns normally: nothing
  is thrown to its caller. The notification has been dispatched and \<^verbatim>\<open>cleanup\<close> has
  run: \<^verbatim>\<open>state\<close> has its initial content, \<^verbatim>\<open>defer\<close> is \<^verbatim>\<open>null\<close>, the timer that was armed
  is not pending, and the body style is the one from before the gesture.
\<close>

theorem throwing_listener_is_reported_and_cleanup_runs:
  assumes "state_props w = None" and "list_all nonterminal_call cs"
  shows "let g = run cs (snd (start (Some p) delay e w));
             nd = custom_event Dnd_drop g;
             nc = custom_event Dnd_drop (g\<lparr> state_canceled := True \<rparr>)
         in (defer_id g = None \<and> subscriber g nd = Some err \<longrightarrow>
               fst (drop_h g) = None \<and> reported (snd (drop_h g)) = reported g @ [err] \<and>
               emitted (snd (drop_h g)) = emitted g @ [nd] \<and>
               idle_shape (snd (drop_h g)) \<and> defer_id (snd (drop_h g)) = None \<and>
               body_style (snd (drop_h g)) = body_style w) \<and>
            (subscriber g nc = Some err \<longrightarrow>
               fst (cancel g) = None \<and> reported (snd (cancel g)) = reported g @ [err] \<and>
               emitted (snd (cancel g)) = emitted g @ [nc] \<and>
               idle_shape (snd (cancel g)) \<and> defer_id (snd (cancel g)) = None \<and>
               (\<forall>i. defer_id g = Some i \<longrightarrow> \<not> pending i (snd (cancel g))) \<and>
               body_style (snd (cancel g)) = body_style w)"
proof -
  define g where "g = run cs (snd (start (Some p) delay e w))"
  have act: "state_props g \<noteq> None"
    using gesture_keeps(1) [OF assms, of "Some p" delay e] by (simp add: g_def)
  note rt = gesture_end_restores(1,2) [OF assms g_def]
  note d = drop_active_fields [OF act]
  note c = cancel_active_fields [OF act]
  have np: "\<forall>i. defer_id g = Some i \<longrightarrow> \<not> pending i (snd (cancel g))"
    using cleared_not_pending [OF _ c(5)] by blast
  have "defer_id g = None \<and> subscriber g (custom_event Dnd_drop g) = Some err \<longrightarrow>
               fst (drop_h g) = None \<and> reported (snd (drop_h g)) = reported g @ [err] \<and>
               emitted (snd (drop_h g)) = emitted g @ [custom_event Dnd_drop g] \<and>
               idle_shape (snd (drop_h g)) \<and> defer_id (snd (drop_h g)) = None \<and>
               body_style (snd (drop_h g)) = body_style w"
    by (simp add: d rt)
  moreover have "subscriber g (custom_event Dnd_drop (g\<lparr> state_canceled := True \<rparr>)) = Some err \<longrightarrow>
               fst (cancel g) = None \<and> reported (snd (cancel g)) = reported g @ [err] \<and>
               emitted (snd (cancel g)) =
                 emitted g @ [custom_event Dnd_drop (g\<lparr> state_canceled := True \<rparr>)] \<and>
               idle_shape (snd (cancel g)) \<and> defer_id (snd (cancel g)) = None \<and>
               (\<forall>i. defer_id g = Some i \<longrightarrow> \<not> pending i (snd (cancel g))) \<and>
               body_style (snd (cancel g)) = body_style w"
    using np by (simp add: c rt)
  ultimately show ?thesis
    unfolding Let_def g_def [symmetric] by blast
qed

theorem throwing_listener_is_reported_and_cleanup_runs_witness:
  "state_props throwing_world = None \<and>
   list_all nonterminal_call [Elapse 50, Fire 1 :: nat call] \<and>
   defer_id (run [Elapse 50, Fire 1]
     (snd (start (Some 7) 50 (MouseEvent (10, 20)) throwing_world))) = None \<and>
   fst (drop_h (run [Elapse 50, Fire 1]
     (snd (start (Some 7) 50 (MouseEvent (10, 20)) throwing_world)))) = None \<and>
   reported (snd (drop_h (run [Elapse 50, Fire 1]
     (snd (start (Some 7) 50 (MouseEvent (10, 20)) throwing_world))))) = [HandlerError ''boom''] \<and>
   idle_shape (snd (drop_h (run [Elapse 50, Fire 1]
     (snd (start (Some 7) 50 (MouseEvent (10, 20)) throwing_world))))) \<and>
   body_style (snd (drop_h (run [Elapse 50, Fire 1]
     (snd (start (Some 7) 50 (MouseEvent (10, 20)) throwing_world))))) = page_style \<and>
   fst (cancel (run [Elapse 50, Fire 1]
     (snd (start (Some 7) 50 (MouseEvent (10, 20)) throwing_world)))) = None \<and>
   reported (snd (cancel (run [Elapse 50, Fire 1]
     (snd (start (Some 7) 50 (MouseEvent (10, 20)) throwing_world))))) = [HandlerError ''boom''] \<and>
   idle_shape (snd (cancel (run [Elapse 50, Fire 1]
     (snd (start (Some 7) 50 (MouseEvent (10, 20)) throwing_world))))) \<and>
   body_style (snd (cancel (run [Elapse 50, Fire 1]
     (snd (start (Some 7) 50 (MouseEvent (10, 20)) throwing_world))))) = page_style"
proof -
  define g where "g = run [Elapse 50, Fire 1]
     (snd (start (Some 7) 50 (MouseEvent (10, 20)) throwing_world))"
  have h1: "state_props throwing_world = None" by (simp add: throwing_world_idle)
  have h2: "list_all nonterminal_call [Elapse 50, Fire 1 :: nat call]" by simp
  have sub: "subscriber g = subscriber throwing_world"
    using gesture_keeps(3) [OF h1 h2] by (simp add: g_def)
  have a1: "defer_id g = None" and a0: "reported g = []"
    by (simp_all add: g_def throwing_world_def init_world_def handler_defs report_def
        timeout_of_def to_long_def toggleUserSelect_def style_keys_def Let_def)
  have a2: "subscriber g (custom_event Dnd_drop g) = Some (HandlerError ''boom'')"
    and a3: "subscriber g (custom_event Dnd_drop (g\<lparr> state_canceled := True \<rparr>))
             = Some (HandlerError ''boom'')"
    by (simp_all add: sub custom_event_def throwing_world_def init_world_def)
  from throwing_listener_is_reported_and_cleanup_runs [OF h1 h2, of 7 50 "MouseEvent (10, 20)"
      "HandlerError ''boom''"] a0 a1 a2 a3 h1 h2
  show ?thesis unfolding Let_def g_def [symmetric] by (simp add: throwing_world_idle(2))
qed

text \<open>
  The claim as it stands says that the exception goes on to the caller. With a
  listener that throws on every \<^verbatim>\<open>dnd-drop\<close>, and a gesture started by its timer, both
  the release and the cancel return normally.
\<close>

theorem listener_exception_does_not_reach_caller:
  "state_props (run [Elapse 50, Fire 1]
     (snd (start (Some 7) 50 (MouseEvent (10, 20)) throwing_world))) = Some 7 \<and>
   defer_id (run [Elapse 50, Fire 1]
     (snd (start (Some 7) 50 (MouseEvent (10, 20)) throwing_world))) = None \<and>
   subscriber throwing_world
     (custom_event Dnd_drop (run [Elapse 50, Fire 1]
        (snd (start (Some 7) 50 (MouseEvent (10, 20)) throwing_world))))
     = Some (HandlerError ''boom'') \<and>
   fst (drop_h (run [Elapse 50, Fire 1]
     (snd (start (Some 7) 50 (MouseEvent (10, 20)) throwing_world)))) = None \<and>
   fst (cancel (run [Elapse 50, Fire 1]
     (snd (start (Some 7) 50 (MouseEvent (10, 20)) throwing_world)))) = None"
  by (simp add: throwing_world_def init_world_def handler_defs report_def timeout_of_def
      to_long_def toggleUserSelect_def style_keys_def Let_def)

subsection \<open>The idle invariant\<close>

lemma props_step:
  assumes "subject_call c"
  shows "(state_props (step c w) \<noteq> None) = spec_in_progress_step c (state_props w \<noteq> None)"
proof (cases "nonterminal_call c")
  case True
  then show ?thesis
    using nonterminal_step_keeps(1) [OF True, of w] by (cases c) simp_all
next
  case nt: False
  show ?thesis
  proof (cases "state_props w = None")
    case True
    show ?thesis
    proof (cases c)
      case (Start props delay e)
      with assms obtain p where "props = Some p" by (cases props) simp_all
      with True Start show ?thesis by (simp add: start_idle_fields)
    qed (use nt True in \<open>simp_all add: idle_noop\<close>)
  next
    case False
    then show ?thesis
      using nt cancel_active_fields(3) [OF False] drop_active_fields(3) [OF False]
      by (cases c) (simp_all add: start_active idle_shape_def)
  qed
qed

lemma inv_step: "idle_inv w \<Longrightarrow> idle_inv (step c w)"
proof (cases "state_props w = None")
  case True
  assume "idle_inv w"
  with True have "idle_shape w" by (simp add: idle_inv_def)
  with True show ?thesis
    by (cases c) (simp_all add: idle_inv_def idle_noop start_idle_fields start_idle_timer
        draggable_def fire_def idle_shape_def timer_callback_def move_def elapse_def
        split: option.splits)
next
  case False
  show ?thesis
  proof (cases "nonterminal_call c")
    case True
    then show ?thesis
      using False nonterminal_step_keeps(1) [OF True, of w] by (auto simp: idle_inv_def)
  next
    case nt: False
    then show ?thesis
      using cancel_active_fields(3) [OF False] drop_active_fields(3) [OF False]
      by (cases c) (simp_all add: idle_inv_def start_active [OF False])
  qed
qed

lemma inv_run: "idle_inv w \<Longrightarrow> idle_inv (run cs w)"
  by (induction cs arbitrary: w) (simp_all add: inv_step)

lemma init_world_inv: "idle_inv (init_world sub al body)"
  by (simp add: idle_inv_def idle_shape_def init_world_def)

lemma props_run:
  "list_all subject_call cs \<Longrightarrow>
     (state_props (run cs w) \<noteq> None) = spec_in_progress cs (state_props w \<noteq> None)"
proof (induction cs arbitrary: w)
  case Nil
  then show ?case by simp
next
  case (Cons c cs)
  then have "subject_call c" and "list_all subject_call cs" by simp_all
  from Cons.IH [OF this(2), of "step c w"] props_step [OF this(1), of w] show ?case
    by simp
qed

text \<open>
  As long as every pointer-down carries a subject, the subject is present exactly when
  the life cycle of the specification says that a gesture is in progress; and in every
  case an absent subject comes with zero deltas and \<^verbatim>\<open>canceled\<close> false, and then a move,
  a release and a cancel event each return without changing anything.
\<close>

lemma subject_tracks_gesture_when_subjects_present:
  assumes "idle_inv w0"
  shows "let w = run cs w0
         in idle_inv w \<and>
            (list_all subject_call cs \<longrightarrow>
               (state_props w \<noteq> None \<longleftrightarrow> spec_in_progress cs (state_props w0 \<noteq> None))) \<and>
            (state_props w = None \<longrightarrow>
               state_dx w = Num 0 \<and> state_dy w = Num 0 \<and> \<not> state_canceled w \<and>
               move e w = (None, w) \<and> drop_h w = (None, w) \<and> cancel w = (None, w))"
  using inv_run [OF assms, of cs] props_run [of cs w0]
  by (auto simp: Let_def idle_inv_def idle_shape_def idle_noop)

lemma tidy_cases:
  assumes "tidy w"
  shows "defer_id w = None \<and> timers w = [] \<or>
         (\<exists>i. defer_id w = Some i \<and> state_props w \<noteq> None \<and>
              filter (\<lambda>t. fst t \<noteq> i) (timers w) = [])"
proof (cases "defer_id w")
  case None
  with assms have "list_all (\<lambda>t. False) (timers w)" by (simp add: tidy_def)
  then have "timers w = []" by (cases "timers w") simp_all
  with None show ?thesis by simp
next
  case (Some i)
  with assms have "list_all (\<lambda>t. i = fst t) (timers w)" "state_props w \<noteq> None"
    by (simp_all add: tidy_def)
  then have "filter (\<lambda>t. fst t \<noteq> i) (timers w) = []" "state_props w \<noteq> None"
    by (auto simp: list_all_iff filter_empty_conv)
  with Some show ?thesis by simp
qed

lemma tidy_cleanup:
  assumes "tidy w" "state_props w \<noteq> None"
  shows "tidy (cleanup w)"
  using tidy_cases [OF assms(1)] cleanup_fields [OF assms(2)]
  by (auto simp: tidy_def idle_shape_def clearTimeout_def)

lemma tidy_step:
  assumes "tidy w" and "subject_call c"
  shows "tidy (step c w)"
proof (cases c)
  case (Attach props cfg)
  then show ?thesis
    using assms(1) by (simp add: tidy_def draggable_def Let_def split: option.splits)
next
  case (Start props delay e)
  with assms(2) obtain p where p: "props = Some p" by (cases props) simp_all
  show ?thesis
  proof (cases "state_props w = None")
    case True
    with tidy_cases [OF assms(1)] have "timers w = []" by auto
    with True show ?thesis
      by (simp add: Start p tidy_def start_idle_fields start_idle_timer)
  next
    case False
    have "tidy (cleanup (report r (w\<lparr> state_canceled := True, emitted := E \<rparr>)))" for r E
      using assms(1) False by (intro tidy_cleanup) (simp_all add: tidy_def)
    then show ?thesis
      using False by (simp add: Start start_active cancel_active)
  qed
next
  case (Move e)
  show ?thesis
  proof (cases "state_props w = None")
    case True
    then show ?thesis using assms(1) by (simp add: Move idle_noop)
  next
    case False
    then show ?thesis
      using tidy_cases [OF assms(1)] assms(1)
      by (auto simp: Move tidy_def move_def Let_def dispatch_def clearTimeout_def)
  qed
next
  case Drop
  show ?thesis
  proof (cases "state_props w = None")
    case True
    then show ?thesis using assms(1) by (simp add: Drop idle_noop)
  next
    case False
    have "tidy (cleanup (report r (w\<lparr> emitted := E \<rparr>)))" for r E
      using assms(1) False by (intro tidy_cleanup) (simp_all add: tidy_def)
    moreover have "tidy (cleanup w)" using assms(1) False by (rule tidy_cleanup)
    ultimately show ?thesis
      using False by (simp add: Drop drop_active)
  qed
next
  case Cancel
  show ?thesis
  proof (cases "state_props w = None")
    case True
    then show ?thesis using assms(1) by (simp add: Cancel idle_noop)
  next
    case False
    have "tidy (cleanup (report r (w\<lparr> state_canceled := True, emitted := E \<rparr>)))" for r E
      using assms(1) False by (intro tidy_cleanup) (simp_all add: tidy_def)
    then show ?thesis
      using False by (simp add: Cancel cancel_active)
  qed
next
  case (Fire j)
  show ?thesis
  proof (cases "find (\<lambda>t. fst t = j) (timers w)")
    case None
    then show ?thesis using assms(1) by (simp add: Fire fire_def)
  next
    case (Some t)
    then have tin: "t \<in> set (timers w)" and tj: "fst t = j"
      by (auto simp: find_Some_iff)
    with assms(1) have dj: "defer_id w = Some j"
      by (auto simp: tidy_def list_all_iff)
    with tidy_cases [OF assms(1)] have act: "state_props w \<noteq> None"
      and emp: "filter (\<lambda>t. fst t \<noteq> j) (timers w) = []"
      by auto
    show ?thesis
    proof (cases "now w < snd (snd t)")
      case True
      then show ?thesis using assms(1) Some by (simp add: Fire fire_def)
    next
      case False
      then show ?thesis
        using Some act emp
        by (auto simp: Fire fire_def timer_callback_def move_def Let_def dispatch_def tidy_def)
    qed
  qed
next
  case (Elapse t)
  then show ?thesis using assms(1) by (simp add: tidy_def elapse_def)
qed

lemma tidy_run: "tidy w \<Longrightarrow> list_all subject_call cs \<Longrightarrow> tidy (run cs w)"
  by (induction cs arbitrary: w) (simp_all add: tidy_step)

text \<open>
  From the loaded module, as long as every pointer-down carries a subject, no timer is
  pending whenever the subject is absent.
\<close>

lemma idle_has_no_timer:
  assumes "list_all subject_call cs" and "state_props (run cs (init_world sub al body)) = None"
  shows "timers (run cs (init_world sub al body)) = []"
proof -
  have "tidy (init_world sub al body)" by (simp add: tidy_def init_world_def)
  from tidy_run [OF this assms(1)] have "tidy (run cs (init_world sub al body))" .
  from tidy_cases [OF this] assms(2) show ?thesis by auto
qed

subsection \<open>A pointer-down without a subject\<close>

text \<open>
  \<^verbatim>\<open>draggable\<close> accepts any subject, \<^verbatim>\<open>null\<close> included. A pointer-down on such a surface
  leaves the subject absent, so no gesture is in progress for the handlers, but it has
  toggled the selection style and armed a timer; the release that follows returns at
  its first test and undoes neither.
\<close>

lemma pointer_down_without_subject:
  assumes "state_props w = None"
  shows "state_props (snd (start None delay e w)) = None"
    and "suppressed (body_style w) (snd (start None delay e w))"
    and "pending (next_timer w) (snd (start None delay e w))"
    and "drop_h (snd (start None delay e w)) = (None, snd (start None delay e w))"
proof -
  show p: "state_props (snd (start None delay e w)) = None"
    by (simp add: start_idle_fields [OF assms])
  show "suppressed (body_style w) (snd (start None delay e w))"
    by (simp add: start_idle_fields [OF assms])
  show "pending (next_timer w) (snd (start None delay e w))"
    by (simp add: pending_def start_idle_timer [OF assms])
  show "drop_h (snd (start None delay e w)) = (None, snd (start None delay e w))"
    using p by (rule idle_noop)
qed

text \<open>
  Claim C9 says that the subject is present whenever a gesture is in progress. On the
  loaded module, a pointer-down on a surface attached with \<^verbatim>\<open>null\<close> as subject begins a
  gesture in the life cycle of the specification, and the code arms its timer and
  suppresses selection, but the subject stays absent. The release that follows ends the
  gesture in the life cycle, yet the timer is still pending and selection is still
  suppressed, where the page had \<^verbatim>\<open>text\<close>.
\<close>

theorem pointer_down_without_subject_leaves_subject_absent:
  "spec_in_progress [Start None 50 (MouseEvent (1, 2)) :: nat call] False \<and>
   state_props (run [Start None 50 (MouseEvent (1, 2))] quiet_world) = None \<and>
   defer_id (run [Start None 50 (MouseEvent (1, 2))] quiet_world) = Some 1 \<and>
   pending 1 (run [Start None 50 (MouseEvent (1, 2))] quiet_world) \<and>
   body_style (run [Start None 50 (MouseEvent (1, 2))] quiet_world) UserSelect = Some ''none'' \<and>
   \<not> spec_in_progress [Start None 50 (MouseEvent (1, 2)), Drop :: nat call] False \<and>
   pending 1 (run [Start None 50 (MouseEvent (1, 2)), Drop] quiet_world) \<and>
   body_style (run [Start None 50 (MouseEvent (1, 2)), Drop] quiet_world) UserSelect
     = Some ''none'' \<and>
   body_style quiet_world UserSelect = Some ''text''"
  by (simp add: quiet_world_def init_world_def handler_defs report_def timeout_of_def
      to_long_def toggleUserSelect_def style_keys_def Let_def pending_def page_style_def)

end
